theory Spec2Isabelle
  imports Complex_Main
begin

section \<open>Strings as the detector sees them\<close>

text \<open>
  The detector is a TypeScript module; its strings are sequences of UTF-16 code units.
  The embedding uses \<^typ>\<open>string\<close>, whose characters are the code units below 256
  (ASCII and Latin-1). Within that range the character classes of JavaScript are:
  \<^item> \<^verbatim>\<open>\s\<close> and the characters removed by \<^verbatim>\<open>trim\<close>: TAB, LF, VT, FF, CR, space and
    the no-break space U+00A0;
  \<^item> \<^verbatim>\<open>\w\<close>: the ASCII letters, the digits and the underscore;
  \<^item> \<^verbatim>\<open>\d\<close>: the ASCII digits;
  \<^item> \<^verbatim>\<open>toLowerCase\<close>: A-Z and the Latin-1 capitals U+00C0..U+00DE (the
    multiplication sign U+00D7 apart) move up by 32.
\<close>

definition isSpaceChar :: "char \<Rightarrow> bool" where
  "isSpaceChar c = (let n = (of_char c :: nat) in (9 \<le> n \<and> n \<le> 13) \<or> n = 32 \<or> n = 160)"

definition isDigitChar :: "char \<Rightarrow> bool" where
  "isDigitChar c = (let n = (of_char c :: nat) in 48 \<le> n \<and> n \<le> 57)"

definition isWordChar :: "char \<Rightarrow> bool" where
  "isWordChar c = (let n = (of_char c :: nat) in
     (48 \<le> n \<and> n \<le> 57) \<or> (65 \<le> n \<and> n \<le> 90) \<or> n = 95 \<or> (97 \<le> n \<and> n \<le> 122))"

definition isLineTerminator :: "char \<Rightarrow> bool" where
  "isLineTerminator c = (let n = (of_char c :: nat) in n = 10 \<or> n = 13)"

definition toLowerChar :: "char \<Rightarrow> char" where
  "toLowerChar c = (let n = (of_char c :: nat) in
     if (65 \<le> n \<and> n \<le> 90) \<or> (192 \<le> n \<and> n \<le> 222 \<and> n \<noteq> 215)
     then char_of (n + 32) else c)"

definition toLowerCase :: "string \<Rightarrow> string" where
  "toLowerCase s = map toLowerChar s"

definition trim :: "string \<Rightarrow> string" where
  "trim s = rev (dropWhile isSpaceChar (rev (dropWhile isSpaceChar s)))"

text \<open>
  \<^verbatim>\<open>s.substring(a, b)\<close>: both indices are clamped to the length and swapped when
  they come in the wrong order.
\<close>

definition substring :: "string \<Rightarrow> nat \<Rightarrow> nat \<Rightarrow> string" where
  "substring s a b =
     (let a' = min a (length s); b' = min b (length s);
          lo = min a' b'; hi = max a' b'
      in take (hi - lo) (drop lo s))"

text \<open>\<^verbatim>\<open>s.includes(t)\<close>: \<open>t\<close> occurs in \<open>s\<close> as a contiguous block.\<close>

fun includesStr :: "string \<Rightarrow> string \<Rightarrow> bool" where
  "includesStr [] t = (t = [])"
| "includesStr (c # cs) t = (take (length t) (c # cs) = t \<or> includesStr cs t)"

text \<open>
  A JavaScript value used as a condition, or on the left of \<^verbatim>\<open>||\<close>, counts as true
  when it is defined and not the empty string. \<open>orStr x d\<close> is \<^verbatim>\<open>x || d\<close> for an
  optional string \<open>x\<close>; \<open>templ x\<close> is what a template literal prints for it.
\<close>

definition truthy :: "string option \<Rightarrow> bool" where
  "truthy x = (case x of None \<Rightarrow> False | Some s \<Rightarrow> s \<noteq> [])"

definition orStr :: "string option \<Rightarrow> string \<Rightarrow> string" where
  "orStr x d = (case x of None \<Rightarrow> d | Some s \<Rightarrow> if s \<noteq> [] then s else d)"

definition templ :: "string option \<Rightarrow> string" where
  "templ x = (case x of None \<Rightarrow> ''undefined'' | Some s \<Rightarrow> s)"

section \<open>TextNormalizer\<close>

text \<open>
  \<^verbatim>\<open>.replace(/\s+/g, " ")\<close>: every maximal run of white space becomes one space.
\<close>

function collapseSpaces :: "string \<Rightarrow> string" where
  "collapseSpaces [] = []"
| "collapseSpaces (c # cs) =
     (if isSpaceChar c then CHR '' '' # collapseSpaces (dropWhile isSpaceChar cs)
      else c # collapseSpaces cs)"
  by pat_completeness auto
termination
  by (relation "measure length") (auto intro: le_imp_less_Suc length_dropWhile_le)

text \<open>
  \<^verbatim>\<open>str.toLowerCase().trim().replace(/[^\w\s]/g, "").replace(/\s+/g, " ")\<close>, in the
  order of the source: the trim comes before the punctuation is removed.
\<close>

definition normalizeString :: "string \<Rightarrow> string" where
  "normalizeString str =
     collapseSpaces (filter (\<lambda>c. isWordChar c \<or> isSpaceChar c) (trim (toLowerCase str)))"

text \<open>\<^verbatim>\<open>phone.replace(/[^\d]/g, "")\<close>\<close>

definition normalizePhone :: "string \<Rightarrow> string" where
  "normalizePhone phone = filter isDigitChar phone"

section \<open>SimilarityScorer\<close>

text \<open>
  The table of \<open>calculateSimilarity\<close> has \<open>len2 + 1\<close> rows of \<open>len1 + 1\<close> cells. It
  is created full of \<^verbatim>\<open>null\<close>, which arithmetic reads as 0, so that a cell is a
  natural number here. The three loops of the source are three folds over the index
  ranges, each step writing one cell.
\<close>

type_synonym matrix = "nat list list"

definition setCell :: "matrix \<Rightarrow> nat \<Rightarrow> nat \<Rightarrow> nat \<Rightarrow> matrix" where
  "setCell m j i v = m[j := (m ! j)[i := v]]"

definition cellValue :: "'a list \<Rightarrow> 'a list \<Rightarrow> matrix \<Rightarrow> nat \<Rightarrow> nat \<Rightarrow> nat" where
  "cellValue str1 str2 m j i =
     (let cost = (if str1 ! (i - 1) = str2 ! (j - 1) then 0 else 1)
      in min (min (m ! j ! (i - 1) + 1) (m ! (j - 1) ! i + 1)) (m ! (j - 1) ! (i - 1) + cost))"

definition fillRow :: "'a list \<Rightarrow> 'a list \<Rightarrow> matrix \<Rightarrow> nat \<Rightarrow> matrix" where
  "fillRow str1 str2 m j =
     foldl (\<lambda>m i. setCell m j i (cellValue str1 str2 m j i)) m [1 ..< Suc (length str1)]"

definition levenshteinMatrix :: "'a list \<Rightarrow> 'a list \<Rightarrow> matrix" where
  "levenshteinMatrix str1 str2 =
     (let len1 = length str1; len2 = length str2;
          m0 = replicate (len2 + 1) (replicate (len1 + 1) 0);
          m1 = foldl (\<lambda>m i. setCell m 0 i i) m0 [0 ..< Suc len1];
          m2 = foldl (\<lambda>m j. setCell m j 0 j) m1 [0 ..< Suc len2]
      in foldl (fillRow str1 str2) m2 [1 ..< Suc len2])"

text \<open>
  The result is a JavaScript number, the quotient of two integers below \<open>2^53\<close>
  rounded to a double. The embedding returns the exact quotient as a rational. The
  rounding is monotone, maps 0 and 1 to themselves and depends only on the two integers,
  so that equalities between scores, the bounds 0 and 1, and the comparison with the
  literal \<^verbatim>\<open>0.3\<close> (itself the rounding of \<open>3/10\<close>, which no other quotient with
  a denominator below \<open>2^50\<close> rounds to) read the same on both.
\<close>

definition calculateSimilarity :: "'a list \<Rightarrow> 'a list \<Rightarrow> rat" where
  "calculateSimilarity str1 str2 =
     (let len1 = length str1; len2 = length str2 in
      if len1 = 0 then (if len2 = 0 then 1 else 0)
      else if len2 = 0 then 0
      else
        let distance = levenshteinMatrix str1 str2 ! len2 ! len1;
            maxLen = max len1 len2
        in if maxLen = 0 then 1 else (of_nat maxLen - of_nat distance) / of_nat maxLen)"

text \<open>
  The edit distance of the specification, by its recurrence on the lengths of the two
  prefixes compared; \<open>editDistance s t\<close> is its value for the whole texts.
\<close>

fun levenshtein :: "'a list \<Rightarrow> 'a list \<Rightarrow> nat \<Rightarrow> nat \<Rightarrow> nat" where
  "levenshtein s t 0 j = j"
| "levenshtein s t (Suc i) 0 = Suc i"
| "levenshtein s t (Suc i) (Suc j) =
     min (min (levenshtein s t i (Suc j) + 1) (levenshtein s t (Suc i) j + 1))
         (levenshtein s t i j + (if s ! i = t ! j then 0 else 1))"

definition editDistance :: "'a list \<Rightarrow> 'a list \<Rightarrow> nat" where
  "editDistance s t = levenshtein s t (length s) (length t)"

text \<open>
  What the distance counts: \<open>edits s t n\<close> says that \<open>n\<close> insertions, deletions
  and substitutions of single characters turn \<open>s\<close> into \<open>t\<close>, the two texts being
  read from their ends.
\<close>

inductive edits :: "'a list \<Rightarrow> 'a list \<Rightarrow> nat \<Rightarrow> bool" where
  edits_nil: "edits [] [] 0"
| edits_keep: "edits s t n \<Longrightarrow> edits (s @ [a]) (t @ [a]) n"
| edits_substitute: "edits s t n \<Longrightarrow> edits (s @ [a]) (t @ [b]) (Suc n)"
| edits_delete: "edits s t n \<Longrightarrow> edits (s @ [a]) t (Suc n)"
| edits_insert: "edits s t n \<Longrightarrow> edits s (t @ [b]) (Suc n)"

section \<open>Regular expressions\<close>

text \<open>
  The module searches and rewrites its texts with JavaScript regular expressions. They
  are embedded as syntax trees run by a backtracking matcher that returns every way of
  matching at the current position, in the order in which the JavaScript matcher tries
  them: the first element is the match JavaScript reports. A state holds the captures
  made so far, the character before the current position (for the multi-line \<^verbatim>\<open>^\<close>)
  and the text still to read. A repetition that does not move forward is given up, as
  in JavaScript.
\<close>

datatype regex =
    Cls "char \<Rightarrow> bool"
  | Eps
  | Bol
  | Seq regex regex
  | Alt regex regex
  | Star regex
  | Lazy regex
  | Grp nat regex

type_synonym mstate = "(nat \<times> string) list \<times> char option \<times> string"

definition remaining :: "mstate \<Rightarrow> nat" where
  "remaining st = length (snd (snd st))"

function rmatch :: "regex \<Rightarrow> mstate \<Rightarrow> mstate list" where
  "rmatch (Cls p) st =
     (case st of (caps, prev, s) \<Rightarrow>
        (case s of [] \<Rightarrow> [] | c # cs \<Rightarrow> if p c then [(caps, Some c, cs)] else []))"
| "rmatch Eps st = [st]"
| "rmatch Bol st =
     (case st of (caps, prev, s) \<Rightarrow>
        (case prev of None \<Rightarrow> [st] | Some c \<Rightarrow> if isLineTerminator c then [st] else []))"
| "rmatch (Seq a b) st = concat (map (rmatch b) (rmatch a st))"
| "rmatch (Alt a b) st = rmatch a st @ rmatch b st"
| "rmatch (Star a) st =
     concat (map (\<lambda>st'. if remaining st' < remaining st then rmatch (Star a) st' else [])
                 (rmatch a st)) @ [st]"
| "rmatch (Lazy a) st =
     st # concat (map (\<lambda>st'. if remaining st' < remaining st then rmatch (Lazy a) st' else [])
                      (rmatch a st))"
| "rmatch (Grp n a) st =
     map (\<lambda>st'. case st' of (caps', prev', s') \<Rightarrow>
            ((n, take (remaining st - remaining st') (snd (snd st))) # caps', prev', s'))
         (rmatch a st)"
  by pat_completeness auto
termination
  by (relation "measures [\<lambda>(r, st). size r, \<lambda>(r, st). remaining st]") auto

text \<open>
  Shorthands: one character, one character under the \<^verbatim>\<open>i\<close> flag, a literal word,
  \<^verbatim>\<open>r+\<close>, \<^verbatim>\<open>r?\<close>, an alternation and a sequence of several parts. Every pattern of
  the module is ASCII, so that under the \<^verbatim>\<open>i\<close> flag a character matches a letter
  of the pattern exactly when its lower-case form does.
\<close>

definition chr :: "char \<Rightarrow> regex" where
  "chr c = Cls (\<lambda>x. x = c)"

definition chri :: "char \<Rightarrow> regex" where
  "chri c = Cls (\<lambda>x. toLowerChar x = toLowerChar c)"

fun lit :: "string \<Rightarrow> regex" where
  "lit [] = Eps"
| "lit [c] = chr c"
| "lit (c # cs) = Seq (chr c) (lit cs)"

fun liti :: "string \<Rightarrow> regex" where
  "liti [] = Eps"
| "liti [c] = chri c"
| "liti (c # cs) = Seq (chri c) (liti cs)"

definition many1 :: "regex \<Rightarrow> regex" where
  "many1 r = Seq r (Star r)"

definition opt :: "regex \<Rightarrow> regex" where
  "opt r = Alt r Eps"

fun alts :: "regex list \<Rightarrow> regex" where
  "alts [] = Cls (\<lambda>_. False)"
| "alts [r] = r"
| "alts (r # rs) = Alt r (alts rs)"

fun seqs :: "regex list \<Rightarrow> regex" where
  "seqs [] = Eps"
| "seqs [r] = r"
| "seqs (r # rs) = Seq r (seqs rs)"

definition digit :: regex where
  "digit = Cls isDigitChar"

definition space :: regex where
  "space = Cls isSpaceChar"

definition isAsciiLetter :: "char \<Rightarrow> bool" where
  "isAsciiLetter c = (let n = (of_char c :: nat) in (65 \<le> n \<and> n \<le> 90) \<or> (97 \<le> n \<and> n \<le> 122))"

definition letter :: regex where
  "letter = Cls isAsciiLetter"

text \<open>
  One element of \<^verbatim>\<open>matchAll\<close>: \<^verbatim>\<open>match.index\<close>, \<^verbatim>\<open>match[0]\<close> and the captures;
  \<open>matchGroup n m\<close> is \<^verbatim>\<open>match[n]\<close>. In the patterns of this module every numbered
  group takes part in every match, so that the empty default is never read.
\<close>

record rmatched =
  index :: nat
  whole :: string
  captures :: "(nat \<times> string) list"

definition matchGroup :: "nat \<Rightarrow> rmatched \<Rightarrow> string" where
  "matchGroup n m = (case map_of (captures m) n of None \<Rightarrow> [] | Some g \<Rightarrow> g)"

text \<open>
  The search of the \<^verbatim>\<open>g\<close> flag: try each position from left to right, continue
  after the end of a match, and step over one character after an empty match.
\<close>

function matchAllFrom :: "regex \<Rightarrow> nat \<Rightarrow> char option \<Rightarrow> string \<Rightarrow> rmatched list" where
  "matchAllFrom r i prev s =
     (case rmatch r ([], prev, s) of
        [] \<Rightarrow> (case s of [] \<Rightarrow> [] | c # cs \<Rightarrow> matchAllFrom r (Suc i) (Some c) cs)
      | (caps, prev', rest) # _ \<Rightarrow>
          \<lparr>index = i, whole = take (length s - length rest) s, captures = caps\<rparr> #
          (if length rest < length s
           then matchAllFrom r (i + (length s - length rest)) prev' rest
           else (case s of [] \<Rightarrow> [] | c # cs \<Rightarrow> matchAllFrom r (Suc i) (Some c) cs)))"
  by pat_completeness auto
termination
  by (relation "measure (\<lambda>(r, i, prev, s). length s)") auto

definition matchAll :: "regex \<Rightarrow> string \<Rightarrow> rmatched list" where
  "matchAll r s = matchAllFrom r 0 None s"

text \<open>
  \<^verbatim>\<open>s.replace(r, repl)\<close> under the \<^verbatim>\<open>g\<close> flag; \<open>repl\<close> builds the replacement from
  the captures of the match.
\<close>

function replaceFrom ::
  "regex \<Rightarrow> ((nat \<times> string) list \<Rightarrow> string) \<Rightarrow> char option \<Rightarrow> string \<Rightarrow> string" where
  "replaceFrom r repl prev s =
     (case rmatch r ([], prev, s) of
        [] \<Rightarrow> (case s of [] \<Rightarrow> [] | c # cs \<Rightarrow> c # replaceFrom r repl (Some c) cs)
      | (caps, prev', rest) # _ \<Rightarrow>
          repl caps @
          (if length rest < length s then replaceFrom r repl prev' rest
           else (case s of [] \<Rightarrow> [] | c # cs \<Rightarrow> c # replaceFrom r repl (Some c) cs)))"
  by pat_completeness auto
termination
  by (relation "measure (\<lambda>(r, repl, prev, s). length s)") auto

definition replaceAll :: "regex \<Rightarrow> ((nat \<times> string) list \<Rightarrow> string) \<Rightarrow> string \<Rightarrow> string" where
  "replaceAll r repl s = replaceFrom r repl None s"

text \<open>The replacement \<^verbatim>\<open>"$1"\<close> and a constant replacement.\<close>

definition dollar1 :: "(nat \<times> string) list \<Rightarrow> string" where
  "dollar1 caps = (case map_of caps 1 of None \<Rightarrow> [] | Some g \<Rightarrow> g)"

definition literally :: "string \<Rightarrow> (nat \<times> string) list \<Rightarrow> string" where
  "literally t caps = t"

text \<open>
  \<^verbatim>\<open>s.split(/\s+/)\<close>: the pieces between the runs of white space, with an empty
  piece before a leading run and after a trailing one; the empty text gives one empty
  piece.
\<close>

function splitSpacesFrom :: "string \<Rightarrow> string \<Rightarrow> string list" where
  "splitSpacesFrom piece [] = [piece]"
| "splitSpacesFrom piece (c # cs) =
     (if isSpaceChar c then piece # splitSpacesFrom [] (dropWhile isSpaceChar cs)
      else splitSpacesFrom (piece @ [c]) cs)"
  by pat_completeness auto
termination
  by (relation "measure (\<lambda>(piece, s). length s)")
     (auto intro: le_imp_less_Suc length_dropWhile_le)

definition splitSpaces :: "string \<Rightarrow> string list" where
  "splitSpaces s = splitSpacesFrom [] s"

text \<open>A number printed in decimal, as a template literal prints it.\<close>

function natToString :: "nat \<Rightarrow> string" where
  "natToString n =
     (if n < 10 then [char_of (48 + n)] else natToString (n div 10) @ [char_of (48 + n mod 10)])"
  by pat_completeness auto
termination
  by (relation "measure id") auto

section \<open>FactExtractor\<close>

text \<open>The four patterns of \<open>extractFacts\<close>, in the order of the source.\<close>

definition dateRegex :: regex where
  \<comment> \<open>\<^verbatim>\<open>/(\d{1,2}\/\d{1,2}\/\d{4}|\d{4}-\d{2}-\d{2}|\d{4})/g\<close>\<close>
  "dateRegex = Grp 1 (alts
     [seqs [digit, opt digit, chr CHR ''/'', digit, opt digit, chr CHR ''/'',
            digit, digit, digit, digit],
      seqs [digit, digit, digit, digit, chr CHR ''-'', digit, digit, chr CHR ''-'',
            digit, digit],
      seqs [digit, digit, digit, digit]])"

definition unitWords :: "string list" where
  "unitWords = [''year'', ''month'', ''day'', ''hour'', ''minute'', ''second'', ''time'',
                ''unit'', ''item'', ''piece'', ''step'', ''version'']"

definition quantityRegex :: regex where
  \<comment> \<open>\<^verbatim>\<open>/(\d+(?:\.\d+)?)\s*(years?|months?|...|steps?|versions?)/gi\<close>\<close>
  "quantityRegex = seqs
     [Grp 1 (Seq (many1 digit) (opt (Seq (chr CHR ''.'') (many1 digit)))),
      Star space,
      Grp 2 (alts (map (\<lambda>u. Seq (liti u) (opt (chri CHR ''s''))) unitWords))]"

definition nameRegex :: regex where
  \<comment> \<open>\<^verbatim>\<open>/(?:named|called|known as|referred to as|created by|invented by)\s+([A-Z][a-z]+(?:\s+[A-Z][a-z]+)*)/gi\<close>\<close>
  "nameRegex = seqs
     [alts (map liti [''named'', ''called'', ''known as'', ''referred to as'', ''created by'',
                      ''invented by'']),
      many1 space,
      Grp 1 (seqs [letter, many1 letter, Star (seqs [many1 space, letter, many1 letter])])]"

definition booleanRegex :: regex where
  \<comment> \<open>\<^verbatim>\<open>/(true|false|yes|no|correct|incorrect|right|wrong|accurate|inaccurate|exists|doesn't exist|present|absent|available|unavailable)/gi\<close>\<close>
  "booleanRegex = Grp 1 (alts (map liti
     [''true'', ''false'', ''yes'', ''no'', ''correct'', ''incorrect'', ''right'', ''wrong'',
      ''accurate'', ''inaccurate'', ''exists'', ''doesn't exist'', ''present'', ''absent'',
      ''available'', ''unavailable'']))"

record fact =
  fact_type :: string
  fact_value :: string
  fact_context :: string

definition extractFacts :: "string \<Rightarrow> fact list" where
  "extractFacts text =
     map (\<lambda>m. \<lparr>fact_type = ''date'', fact_value = matchGroup 1 m,
                fact_context = substring text (index m - 20)
                                 (index m + length (matchGroup 1 m) + 20)\<rparr>)
         (matchAll dateRegex text)
     @ map (\<lambda>m. \<lparr>fact_type = ''quantity'',
                  fact_value = matchGroup 1 m @ '' '' @ matchGroup 2 m,
                  fact_context = substring text (index m - 20)
                                   (index m + length (whole m) + 20)\<rparr>)
         (matchAll quantityRegex text)
     @ map (\<lambda>m. \<lparr>fact_type = ''name'', fact_value = matchGroup 1 m,
                  fact_context = substring text (index m - 20)
                                   (index m + length (whole m) + 20)\<rparr>)
         (matchAll nameRegex text)
     @ map (\<lambda>m. \<lparr>fact_type = ''boolean'', fact_value = matchGroup 1 m,
                  fact_context = substring text (index m - 20)
                                   (index m + length (matchGroup 1 m) + 20)\<rparr>)
         (matchAll booleanRegex text)"

section \<open>Grouping in insertion order\<close>

text \<open>
  A JavaScript \<^verbatim>\<open>Map\<close> (and an object with string keys) is read back in the order in
  which its keys were first inserted. It is an association list here; \<open>groupBy f xs\<close>
  is the loop that appends each element to the list stored under its key.
\<close>

fun groupInsert :: "'k \<Rightarrow> 'v \<Rightarrow> ('k \<times> 'v list) list \<Rightarrow> ('k \<times> 'v list) list" where
  "groupInsert k v [] = [(k, [v])]"
| "groupInsert k v ((k', vs) # rest) =
     (if k = k' then (k', vs @ [v]) # rest else (k', vs) # groupInsert k v rest)"

definition groupBy :: "('v \<Rightarrow> 'k) \<Rightarrow> 'v list \<Rightarrow> ('k \<times> 'v list) list" where
  "groupBy f xs = foldl (\<lambda>m x. groupInsert (f x) x m) [] xs"

section \<open>ContradictionEngine\<close>

definition booleanOpposites :: "(string \<times> string list) list" where
  "booleanOpposites =
     [(''true'', [''false'', ''no'', ''incorrect'', ''wrong'', ''inaccurate'']),
      (''false'', [''true'', ''yes'', ''correct'', ''right'', ''accurate'']),
      (''yes'', [''no'', ''false'', ''incorrect'', ''wrong'']),
      (''no'', [''yes'', ''true'', ''correct'', ''right'']),
      (''exists'', [''doesn't exist'', ''absent'', ''unavailable'']),
      (''doesn't exist'', [''exists'', ''present'', ''available'']),
      (''present'', [''absent'', ''unavailable'', ''doesn't exist'']),
      (''absent'', [''present'', ''available'', ''exists''])]"

definition oppositeOf :: "string \<Rightarrow> string \<Rightarrow> bool" where
  \<comment> \<open>\<^verbatim>\<open>opposites[a]?.includes(b)\<close>, read as a condition\<close>
  "oppositeOf a b = (case map_of booleanOpposites a of None \<Rightarrow> False | Some xs \<Rightarrow> b \<in> set xs)"

definition areFactsContradictory :: "fact \<Rightarrow> fact \<Rightarrow> bool" where
  "areFactsContradictory fact1 fact2 =
     (if fact_type fact1 = ''boolean'' then
        (let fact1Lower = toLowerCase (fact_value fact1);
             fact2Lower = toLowerCase (fact_value fact2)
         in oppositeOf fact1Lower fact2Lower \<or> oppositeOf fact2Lower fact1Lower)
      else if fact_type fact1 = ''date'' \<or> fact_type fact1 = ''quantity'' \<or>
              fact_type fact1 = ''name''
      then fact_value fact1 \<noteq> fact_value fact2
      else False)"

definition findFactualContradictions :: "fact list \<Rightarrow> fact list \<Rightarrow> string list" where
  "findFactualContradictions facts1 facts2 =
     (let facts1ByType = groupBy fact_type facts1;
          facts2ByType = groupBy fact_type facts2
      in concat (map (\<lambda>(type, fs1).
           case map_of facts2ByType type of
             None \<Rightarrow> []
           | Some fs2 \<Rightarrow>
               concat (map (\<lambda>fact1. concat (map (\<lambda>fact2.
                 if areFactsContradictory fact1 fact2
                 then [type @ '': '' @ [CHR 0x22] @ fact_value fact1 @ [CHR 0x22] @ '' vs '' @
                       [CHR 0x22] @ fact_value fact2 @ [CHR 0x22]]
                 else []) fs2)) fs1))
         facts1ByType))"

definition stepRegex :: regex where
  \<comment> \<open>\<^verbatim>\<open>/(?:step\s*\d+|first|second|third|then|next|finally|lastly)/gi\<close>\<close>
  "stepRegex = alts
     [seqs [liti ''step'', Star space, many1 digit],
      liti ''first'', liti ''second'', liti ''third'', liti ''then'', liti ''next'',
      liti ''finally'', liti ''lastly'']"

definition actionOpposites :: "(string \<times> string list) list" where
  "actionOpposites =
     [(''click'', [''don't click'', ''avoid clicking'']),
      (''select'', [''deselect'', ''unselect'']),
      (''enable'', [''disable'']),
      (''turn on'', [''turn off'']),
      (''start'', [''stop'']),
      (''begin'', [''end'']),
      (''open'', [''close'']),
      (''add'', [''remove'', ''delete'']),
      (''include'', [''exclude'']),
      (''allow'', [''prevent'', ''block''])]"

definition areInstructionsContradictory :: "string \<Rightarrow> string \<Rightarrow> bool" where
  "areInstructionsContradictory inst1 inst2 =
     (let inst1Norm = normalizeString inst1; inst2Norm = normalizeString inst2
      in list_ex (\<lambda>(positive, negatives).
           let hasPositive1 = includesStr inst1Norm positive;
               hasNegative1 = list_ex (\<lambda>neg. includesStr inst1Norm neg) negatives;
               hasPositive2 = includesStr inst2Norm positive;
               hasNegative2 = list_ex (\<lambda>neg. includesStr inst2Norm neg) negatives
           in (hasPositive1 \<and> hasNegative2) \<or> (hasNegative1 \<and> hasPositive2))
         actionOpposites)"

definition findProceduralContradictions :: "string \<Rightarrow> string \<Rightarrow> string list" where
  "findProceduralContradictions text1 text2 =
     (let steps1 = matchAll stepRegex text1; steps2 = matchAll stepRegex text2
      in if steps1 \<noteq> [] \<and> steps2 \<noteq> [] then
           (let instructions1 = map (\<lambda>m. substring text1 (index m - 50) (index m + 100)) steps1;
                instructions2 = map (\<lambda>m. substring text2 (index m - 50) (index m + 100)) steps2
            in concat (map (\<lambda>(i, inst1, inst2).
                 if areInstructionsContradictory inst1 inst2
                 then [''Step '' @ natToString (i + 1) @ '': Different instructions'']
                 else [])
               (zip [0 ..< min (length instructions1) (length instructions2)]
                    (zip instructions1 instructions2))))
         else [])"

definition areContextsSimilar :: "string \<Rightarrow> string \<Rightarrow> bool" where
  "areContextsSimilar context1 context2 =
     (let norm1 = normalizeString context1; norm2 = normalizeString context2;
          words1 = remdups (splitSpaces norm1);
          words2 = remdups (splitSpaces norm2);
          intersection = filter (\<lambda>x. x \<in> set words2) words1;
          union = remdups (words1 @ words2);
          similarity = (of_nat (length intersection) / of_nat (length union) :: rat)
      in similarity > 3 / 10)"

definition findTemporalContradictions :: "string \<Rightarrow> string \<Rightarrow> string list" where
  "findTemporalContradictions text1 text2 =
     (let dates1 = matchAll dateRegex text1; dates2 = matchAll dateRegex text2
      in if dates1 \<noteq> [] \<and> dates2 \<noteq> [] then
           concat (map (\<lambda>date1. concat (map (\<lambda>date2.
             if matchGroup 1 date1 \<noteq> matchGroup 1 date2 then
               (let context1 = substring text1 (index date1 - 30)
                                 (index date1 + length (matchGroup 1 date1) + 30);
                    context2 = substring text2 (index date2 - 30)
                                 (index date2 + length (matchGroup 1 date2) + 30)
                in if areContextsSimilar context1 context2
                   then [''Date: '' @ [CHR 0x22] @ matchGroup 1 date1 @ [CHR 0x22] @ '' vs '' @
                         [CHR 0x22] @ matchGroup 1 date2 @ [CHR 0x22] @ '' for same event'']
                   else [])
             else []) dates2)) dates1)
         else [])"

definition findQuantitativeContradictions :: "string \<Rightarrow> string \<Rightarrow> string list" where
  "findQuantitativeContradictions text1 text2 =
     (let numbers1 = matchAll quantityRegex text1; numbers2 = matchAll quantityRegex text2
      in if numbers1 \<noteq> [] \<and> numbers2 \<noteq> [] then
           concat (map (\<lambda>num1. concat (map (\<lambda>num2.
             if toLowerCase (matchGroup 2 num1) = toLowerCase (matchGroup 2 num2) \<and>
                matchGroup 1 num1 \<noteq> matchGroup 1 num2 then
               (let context1 = substring text1 (index num1 - 30)
                                 (index num1 + length (whole num1) + 30);
                    context2 = substring text2 (index num2 - 30)
                                 (index num2 + length (whole num2) + 30)
                in if areContextsSimilar context1 context2
                   then [''Quantity: '' @ [CHR 0x22] @ whole num1 @ [CHR 0x22] @ '' vs '' @
                         [CHR 0x22] @ whole num2 @ [CHR 0x22] @ '' for same measurement'']
                   else [])
             else []) numbers2)) numbers1)
         else [])"

definition detectSemanticContradictions :: "string \<Rightarrow> string \<Rightarrow> bool" where
  "detectSemanticContradictions text1 text2 =
     (let normalized1 = normalizeString text1; normalized2 = normalizeString text2
      in if normalized1 = normalized2 then False
         else
           let facts1 = extractFacts normalized1; facts2 = extractFacts normalized2
           in if findFactualContradictions facts1 facts2 \<noteq> [] then True
              else if findProceduralContradictions normalized1 normalized2 \<noteq> [] then True
              else if findTemporalContradictions normalized1 normalized2 \<noteq> [] then True
              else if findQuantitativeContradictions normalized1 normalized2 \<noteq> [] then True
              else False)"

subsection \<open>The lexical-pattern layer\<close>

text \<open>
  The table of opposite terms lives in \<open>detectContradictions\<close>, a function of the
  module that \<open>detectConflicts\<close> does not call. It is embedded for the contradiction
  example. Its patterns carry the \<^verbatim>\<open>g\<close> flag and are tested twice, so that the
  second \<^verbatim>\<open>test\<close> of a pattern starts where the first one ended: \<open>regexTest\<close>
  returns the answer together with the new \<^verbatim>\<open>lastIndex\<close>.
\<close>

definition regexTest :: "regex \<Rightarrow> nat \<Rightarrow> string \<Rightarrow> bool \<times> nat" where
  "regexTest r lastIndex s =
     (if lastIndex > length s then (False, 0)
      else case matchAllFrom r lastIndex
                  (if lastIndex = 0 then None else Some (s ! (lastIndex - 1)))
                  (drop lastIndex s) of
             [] \<Rightarrow> (False, 0)
           | m # _ \<Rightarrow> (True, index m + length (whole m)))"

definition wordsRegex :: "string list \<Rightarrow> regex" where
  \<comment> \<open>\<^verbatim>\<open>/(w1|w2|...)/gi\<close>\<close>
  "wordsRegex ws = Grp 1 (alts (map liti ws))"

definition contradictionPatterns :: "(regex \<times> regex) list" where
  "contradictionPatterns =
     (let truth = wordsRegex [''true'', ''yes'', ''correct'', ''right'', ''accurate''];
          falsity = wordsRegex [''false'', ''no'', ''incorrect'', ''wrong'', ''inaccurate''];
          always = wordsRegex [''always'', ''never'', ''all'', ''every'', ''none''];
          sometimes = wordsRegex [''sometimes'', ''occasionally'', ''some'', ''few'', ''rarely''];
          exists = wordsRegex [''exists'', ''present'', ''available'', ''found''];
          absent = wordsRegex [''doesn't exist'', ''absent'', ''unavailable'', ''not found'',
                               ''missing''];
          many = wordsRegex [''many'', ''multiple'', ''several'', ''numerous''];
          few = wordsRegex [''few'', ''single'', ''one'', ''limited''];
          found = wordsRegex [''discovered'', ''found'', ''created'', ''invented'',
                              ''originated''];
          notFound = wordsRegex [''not discovered'', ''not found'', ''not created'',
                                 ''not invented'', ''didn't originate'']
      in [(truth, falsity), (falsity, truth), (always, sometimes), (sometimes, always),
          (exists, absent), (absent, exists), (many, few), (few, many),
          (found, notFound), (notFound, found)])"

definition lexicalHit :: "regex \<times> regex \<Rightarrow> string \<Rightarrow> string \<Rightarrow> bool" where
  "lexicalHit po normalized1 normalized2 =
     (case po of (pattern, opposite) \<Rightarrow>
        (case regexTest pattern 0 normalized1 of (hasPattern1, patternIndex) \<Rightarrow>
        (case regexTest opposite 0 normalized1 of (hasOpposite1, oppositeIndex) \<Rightarrow>
        (case regexTest pattern patternIndex normalized2 of (hasPattern2, _) \<Rightarrow>
        (case regexTest opposite oppositeIndex normalized2 of (hasOpposite2, _) \<Rightarrow>
           (hasPattern1 \<and> hasOpposite2) \<or> (hasOpposite1 \<and> hasPattern2))))))"

definition factualPatterns :: "regex list" where
  "factualPatterns =
     [Grp 1 (seqs [digit, digit, digit, digit]),
      seqs [Grp 1 (Seq (many1 digit) (opt (Seq (chr CHR ''.'') (many1 digit)))),
            Star space,
            alts (map (\<lambda>u. Seq (liti u) (opt (chri CHR ''s'')))
                      [''year'', ''month'', ''day'', ''hour'', ''minute'', ''second'', ''time'',
                       ''unit'', ''item'', ''piece''])],
      seqs [alts (map liti [''named'', ''called'', ''known as'', ''referred to as'']),
            many1 space,
            Grp 1 (seqs [letter, many1 letter,
                         Star (seqs [many1 space, letter, many1 letter])])]]"

definition factualHit :: "regex \<Rightarrow> string \<Rightarrow> string \<Rightarrow> bool" where
  "factualHit pattern normalized1 normalized2 =
     (let matches1 = matchAll pattern normalized1; matches2 = matchAll pattern normalized2
      in matches1 \<noteq> [] \<and> matches2 \<noteq> [] \<and>
         list_ex (\<lambda>match1. list_ex (\<lambda>match2. matchGroup 1 match1 \<noteq> matchGroup 1 match2)
                                     matches2) matches1)"

definition detectContradictions :: "string \<Rightarrow> string \<Rightarrow> bool" where
  "detectContradictions text1 text2 =
     (let normalized1 = normalizeString text1; normalized2 = normalizeString text2
      in if normalized1 = normalized2 then False
         else if list_ex (\<lambda>po. lexicalHit po normalized1 normalized2) contradictionPatterns
         then True
         else list_ex (\<lambda>pattern. factualHit pattern normalized1 normalized2) factualPatterns)"

section \<open>Records and conflict structures\<close>

text \<open>
  A rich-text field holds a plain string or a wrapper object with an optional
  \<^verbatim>\<open>markdown\<close> and an optional \<^verbatim>\<open>html\<close> string. An object keeps its keys
  in the order in which they were added, and \<^verbatim>\<open>JSON.stringify\<close> prints them in that
  order: the wrapper records which of its two keys comes first. The plain fields are
  optional strings, as the interface \<^verbatim>\<open>YextEntity\<close> declares them.
\<close>

datatype keyOrder = MarkdownFirst | HtmlFirst

datatype richtext = Plain string | Wrapper keyOrder "string option" "string option"

record meta =
  meta_id :: "string option"
  entityType :: "string option"

record YextEntity =
  id' :: "string option"
  name :: "string option"
  description :: "string option"
  content :: "string option"
  answer :: "string option"
  mainPhone :: "string option"
  websiteUrl :: "string option"
  body :: "richtext option"
  bodyV2 :: "richtext option"
  richTextDescription :: "richtext option"
  richText :: "richtext option"
  meta :: "meta option"

datatype severity = High | Medium | Low

record valueEntry =
  entityId :: "string option"
  entityName :: "string option"
  entityValue :: string

text \<open>
  The free-text \<^verbatim>\<open>description\<close> of a detail is left out: for a content conflict
  it prints a percentage rounded from a floating-point product, and nothing below reads
  it.
\<close>

record ConflictDetail =
  field :: string
  detailValues :: "valueEntry list"
  conflictType :: string
  severity :: severity

record entityRef =
  ref_id :: "string option"
  ref_name :: "string option"
  ref_type :: "string option"

record ConflictGroup =
  groupId :: string
  title :: string
  entities :: "entityRef list"
  conflictDetails :: "ConflictDetail list"
  groupSeverity :: severity

record Summary =
  totalConflicts :: nat
  highSeverity :: nat
  mediumSeverity :: nat
  lowSeverity :: nat
  affectedEntities :: nat

text \<open>
  \<^verbatim>\<open>e.meta?.id\<close> and \<^verbatim>\<open>e.meta?.entityType\<close>, the identity key
  \<^verbatim>\<open>e.meta?.id || e.id || "unknown"\<close> and the display name
  \<^verbatim>\<open>e.name || "Unknown Entity"\<close>.
\<close>

definition metaId :: "YextEntity \<Rightarrow> string option" where
  "metaId e = (case meta e of None \<Rightarrow> None | Some m \<Rightarrow> meta_id m)"

definition metaEntityType :: "YextEntity \<Rightarrow> string option" where
  "metaEntityType e = (case meta e of None \<Rightarrow> None | Some m \<Rightarrow> entityType m)"

definition entityKey :: "YextEntity \<Rightarrow> string" where
  "entityKey e = orStr (metaId e) (orStr (id' e) ''unknown'')"

definition displayName :: "YextEntity \<Rightarrow> string" where
  "displayName e = orStr (name e) ''Unknown Entity''"

definition toRef :: "YextEntity \<Rightarrow> entityRef" where
  "toRef e = \<lparr>ref_id = Some (entityKey e), ref_name = Some (displayName e),
              ref_type = metaEntityType e\<rparr>"

definition toValue :: "YextEntity \<Rightarrow> string \<Rightarrow> valueEntry" where
  "toValue e v = \<lparr>entityId = Some (entityKey e), entityName = Some (displayName e),
                  entityValue = v\<rparr>"

section \<open>TextNormalizer: structured text\<close>

definition dot :: regex where
  \<comment> \<open>\<^verbatim>\<open>.\<close>: any character but a line terminator\<close>
  "dot = Cls (\<lambda>c. \<not> isLineTerminator c)"

definition anyChar :: regex where
  \<comment> \<open>\<^verbatim>\<open>[\s\S]\<close>\<close>
  "anyChar = Cls (\<lambda>c. True)"

definition notChr :: "char \<Rightarrow> regex" where
  "notChr c = Cls (\<lambda>x. x \<noteq> c)"

fun upTo :: "nat \<Rightarrow> regex \<Rightarrow> regex" where
  "upTo 0 r = Eps"
| "upTo (Suc n) r = opt (Seq r (upTo n r))"

definition htmlTagRegex :: regex where
  \<comment> \<open>\<^verbatim>\<open>/<[^>]*>/g\<close>\<close>
  "htmlTagRegex = seqs [chr CHR ''<'', Star (notChr CHR ''>''), chr CHR ''>'']"

definition wrappedRegex :: "string \<Rightarrow> regex" where
  \<comment> \<open>\<^verbatim>\<open>/d(.*?)d/g\<close> for a delimiter \<open>d\<close>\<close>
  "wrappedRegex d = seqs [lit d, Grp 1 (Lazy dot), lit d]"

definition codeBlockRegex :: regex where
  \<comment> \<open>\<^verbatim>\<open>/```[\s\S]*?```/g\<close>\<close>
  "codeBlockRegex = seqs [lit ''```'', Lazy anyChar, lit ''```'']"

definition headerRegex :: regex where
  \<comment> \<open>\<^verbatim>\<open>/#{1,6}\s+/g\<close>\<close>
  "headerRegex = seqs [chr CHR ''#'', upTo 5 (chr CHR ''#''), many1 space]"

definition linkRegex :: regex where
  \<comment> \<open>\<^verbatim>\<open>/\[([^\]]*)\]\([^)]*\)/g\<close>\<close>
  "linkRegex = seqs [chr CHR ''['', Grp 1 (Star (notChr CHR '']'')), chr CHR '']'',
                     chr CHR ''('', Star (notChr CHR '')''), chr CHR '')'']"

definition imageRegex :: regex where
  \<comment> \<open>\<^verbatim>\<open>/!\[([^\]]*)\]\([^)]*\)/g\<close>\<close>
  "imageRegex = Seq (chr CHR ''!'') linkRegex"

definition listItemRegex :: regex where
  \<comment> \<open>\<^verbatim>\<open>/^\s*[-*+]\s+/gm\<close>\<close>
  "listItemRegex = seqs [Bol, Star space,
                         Cls (\<lambda>c. c = CHR ''-'' \<or> c = CHR ''*'' \<or> c = CHR ''+''), many1 space]"

definition numberedItemRegex :: regex where
  \<comment> \<open>\<^verbatim>\<open>/^\s*\d+\.\s+/gm\<close>\<close>
  "numberedItemRegex = seqs [Bol, Star space, many1 digit, chr CHR ''.'', many1 space]"

definition blockquoteRegex :: regex where
  \<comment> \<open>\<^verbatim>\<open>/^\s*>\s+/gm\<close>\<close>
  "blockquoteRegex = seqs [Bol, Star space, chr CHR ''>'', many1 space]"

definition ruleRegex :: regex where
  \<comment> \<open>\<^verbatim>\<open>/---+/g\<close>\<close>
  "ruleRegex = seqs [chr CHR ''-'', chr CHR ''-'', many1 (chr CHR ''-'')]"

definition newlinesRegex :: regex where
  \<comment> \<open>\<^verbatim>\<open>/\n{3,}/g\<close>\<close>
  "newlinesRegex = seqs [chr CHR 0x0A, chr CHR 0x0A, chr CHR 0x0A, Star (chr CHR 0x0A)]"

definition stripMarkup :: "string \<Rightarrow> string" where
  "stripMarkup str =
     (let text = replaceAll htmlTagRegex (literally []) str;
          text = replaceAll (wrappedRegex ''**'') dollar1 text;
          text = replaceAll (wrappedRegex ''*'') dollar1 text;
          text = replaceAll (wrappedRegex ''__'') dollar1 text;
          text = replaceAll (wrappedRegex ''_'') dollar1 text;
          text = replaceAll (wrappedRegex ''`'') dollar1 text;
          text = replaceAll codeBlockRegex (literally []) text;
          text = replaceAll headerRegex (literally []) text;
          text = replaceAll linkRegex dollar1 text;
          text = replaceAll imageRegex dollar1 text;
          text = replaceAll listItemRegex (literally []) text;
          text = replaceAll numberedItemRegex (literally []) text;
          text = replaceAll blockquoteRegex (literally []) text;
          text = replaceAll ruleRegex (literally []) text;
          text = replaceAll newlinesRegex (literally [CHR 0x0A, CHR 0x0A]) text
      in trim text)"

text \<open>
  \<^verbatim>\<open>JSON.stringify\<close> of a wrapper neither of whose fields is a non-empty string:
  each field is absent, and then not printed, or the empty string, and the keys that are
  present come in the order of the object.
\<close>

definition emptyMember :: "string \<Rightarrow> string" where
  \<comment> \<open>\<^verbatim>\<open>"key":""\<close>\<close>
  "emptyMember key = [CHR 0x22] @ key @ [CHR 0x22] @ '':'' @ [CHR 0x22, CHR 0x22]"

definition stringifyEmptyWrapper :: "keyOrder \<Rightarrow> bool \<Rightarrow> bool \<Rightarrow> string" where
  "stringifyEmptyWrapper keyOrd hasMarkdown hasHtml =
     (let markdownMember = (if hasMarkdown then [emptyMember ''markdown''] else []);
          htmlMember = (if hasHtml then [emptyMember ''html''] else []);
          members = (case keyOrd of MarkdownFirst \<Rightarrow> markdownMember @ htmlMember
                                 | HtmlFirst \<Rightarrow> htmlMember @ markdownMember)
      in ''{'' @ (case members of [] \<Rightarrow> []
                               | [m] \<Rightarrow> m
                               | m # n # rest \<Rightarrow> m @ '','' @ n) @ ''}'')"

definition richTruthy :: "richtext option \<Rightarrow> bool" where
  "richTruthy x = (case x of None \<Rightarrow> False | Some (Plain s) \<Rightarrow> s \<noteq> []
                   | Some (Wrapper keyOrd md html) \<Rightarrow> True)"

definition extractTextContent :: "richtext option \<Rightarrow> string" where
  "extractTextContent rich =
     (case rich of
        None \<Rightarrow> []
      | Some (Plain s) \<Rightarrow> if s = [] then [] else stripMarkup s
      | Some (Wrapper keyOrd md html) \<Rightarrow>
          stripMarkup
            (if truthy md then orStr md []
             else if truthy html then orStr html []
             else stringifyEmptyWrapper keyOrd (md \<noteq> None) (html \<noteq> None)))"

section \<open>EntityGrouper and ConflictAssembler\<close>

subsection \<open>Question and answer grouping\<close>

definition isFaq :: "YextEntity \<Rightarrow> bool" where
  "isFaq e = (metaEntityType e = Some ''faq'' \<or> metaEntityType e = Some ''ce_faq'')"

definition faqQuestion :: "YextEntity \<Rightarrow> string" where
  \<comment> \<open>\<^verbatim>\<open>normalizeString(faq.name || "")\<close>\<close>
  "faqQuestion faq = normalizeString (orStr (name faq) [])"

definition faqAnswer :: "YextEntity \<Rightarrow> string" where
  \<comment> \<open>\<^verbatim>\<open>faq.answer || faq.description || ""\<close>\<close>
  "faqAnswer faq = orStr (answer faq) (orStr (description faq) [])"

definition faqGroupId :: "string \<Rightarrow> string" where
  \<comment> \<open>\<^verbatim>\<open>`faq-conflict-${question}`\<close>\<close>
  "faqGroupId question = ''faq-conflict-'' @ question"

definition faqConflict :: "string \<times> YextEntity list \<Rightarrow> ConflictGroup list" where
  "faqConflict qg =
     (case qg of (question, faqs) \<Rightarrow>
        if length faqs > 1 then
          (let answers = map (\<lambda>faq. (faq, normalizeString (faqAnswer faq))) faqs;
               uniqueAnswers = remdups (map snd answers)
           in if length uniqueAnswers > 1 then
                (let details =
                       [\<lparr>field = ''answer'',
                         detailValues = map (\<lambda>a. toValue (fst a)
                                           (substring (faqAnswer (fst a)) 0 100 @ ''...'')) answers,
                         conflictType = ''faq_answer_conflict'',
                         severity = High\<rparr>]
                 in [\<lparr>groupId = faqGroupId question,
                       title = ''FAQ Conflict: '' @ [CHR 0x22] @ question @ [CHR 0x22],
                       entities = map toRef faqs,
                       conflictDetails = details,
                       groupSeverity = (if list_ex (\<lambda>c. severity c = High) details
                                        then High else Medium)\<rparr>])
              else [])
        else [])"

definition faqConflicts :: "YextEntity list \<Rightarrow> ConflictGroup list" where
  "faqConflicts es =
     (let faqEntities = filter isFaq es
      in if faqEntities \<noteq> [] then concat (map faqConflict (groupBy faqQuestion faqEntities))
         else [])"

subsection \<open>Type-based pairwise grouping\<close>

definition isExcludedType :: "YextEntity \<Rightarrow> bool" where
  "isExcludedType e =
     (metaEntityType e = Some ''faq'' \<or> metaEntityType e = Some ''ce_faq'' \<or>
      metaEntityType e = Some ''location'' \<or> metaEntityType e = Some ''ce_location'' \<or>
      metaEntityType e = Some ''bufo'' \<or> metaEntityType e = Some ''ce_bufo'')"

definition bucketOf :: "YextEntity \<Rightarrow> string" where
  \<comment> \<open>\<^verbatim>\<open>entity.meta?.entityType || "unknown"\<close>\<close>
  "bucketOf e = orStr (metaEntityType e) ''unknown''"

definition isBook :: "YextEntity \<Rightarrow> bool" where
  "isBook e = (metaEntityType e = Some ''book'' \<or> metaEntityType e = Some ''ce_book'')"

fun firstNonEmpty :: "string list \<Rightarrow> string" where
  \<comment> \<open>\<^verbatim>\<open>a || b || ... || ""\<close> on strings\<close>
  "firstNonEmpty [] = []"
| "firstNonEmpty (x # xs) = (if x \<noteq> [] then x else firstNonEmpty xs)"

definition stringOr :: "string option \<Rightarrow> string" where
  \<comment> \<open>\<^verbatim>\<open>typeof x === "string" ? x : ""\<close> for an optional string\<close>
  "stringOr x = (case x of None \<Rightarrow> [] | Some s \<Rightarrow> s)"

definition plainOr :: "richtext option \<Rightarrow> string" where
  \<comment> \<open>\<^verbatim>\<open>typeof x === "string" ? x : ""\<close> for a rich-text field\<close>
  "plainOr x = (case x of Some (Plain s) \<Rightarrow> s | _ \<Rightarrow> [])"

definition extractIf :: "richtext option \<Rightarrow> string" where
  \<comment> \<open>\<^verbatim>\<open>x ? extractTextContent(x) : ""\<close>\<close>
  "extractIf x = (if richTruthy x then extractTextContent x else [])"

definition selectContent :: "YextEntity \<Rightarrow> string" where
  "selectContent e =
     (if isBook e then
        firstNonEmpty [extractIf (bodyV2 e), extractIf (body e), stringOr (description e),
                       stringOr (content e), extractIf (richTextDescription e),
                       extractIf (richText e)]
      else
        firstNonEmpty [stringOr (description e), stringOr (content e), plainOr (body e),
                       extractIf (bodyV2 e), extractIf (richTextDescription e),
                       extractIf (richText e)])"

definition contradictedField :: "YextEntity \<Rightarrow> YextEntity \<Rightarrow> string \<times> string" where
  \<comment> \<open>\<open>(conflictField, conflictType)\<close> of a contradiction\<close>
  "contradictedField entity1 entity2 =
     (if richTruthy (body entity1) \<and> richTruthy (body entity2)
      then (''body'', ''body_content_contradiction'')
      else if truthy (content entity1) \<and> truthy (content entity2)
      then (''content'', ''content_contradiction'')
      else if truthy (description entity1) \<and> truthy (description entity2)
      then (''description'', ''description_contradiction'')
      else (''content'', ''inconsistent_data''))"

definition differingField :: "YextEntity \<Rightarrow> YextEntity \<Rightarrow> string \<times> string" where
  \<comment> \<open>\<open>(conflictField, conflictType)\<close> of contents that differ without contradiction\<close>
  "differingField entity1 entity2 =
     (if richTruthy (body entity1) \<and> richTruthy (body entity2)
      then (''body'', ''body_content_conflict'')
      else if truthy (content entity1) \<and> truthy (content entity2)
      then (''content'', ''content_conflict'')
      else if truthy (description entity1) \<and> truthy (description entity2)
      then (''description'', ''description_conflict'')
      else (''content'', ''inconsistent_data''))"

definition nameSimilarityOf :: "YextEntity \<Rightarrow> YextEntity \<Rightarrow> rat" where
  "nameSimilarityOf entity1 entity2 =
     calculateSimilarity (normalizeString (orStr (name entity1) []))
                         (normalizeString (orStr (name entity2) []))"

definition contentDetails :: "YextEntity \<Rightarrow> YextEntity \<Rightarrow> ConflictDetail list" where
  "contentDetails entity1 entity2 =
     (if nameSimilarityOf entity1 entity2 > 3 / 10 then
        (let content1 = selectContent entity1; content2 = selectContent entity2
         in if content1 \<noteq> [] \<and> content2 \<noteq> [] then
              (let isDifferent = (normalizeString content1 \<noteq> normalizeString content2);
                   hasContradiction = detectSemanticContradictions content1 content2;
                   vals = [toValue entity1 (substring content1 0 100 @ ''...''),
                           toValue entity2 (substring content2 0 100 @ ''...'')]
               in if isDifferent \<and> hasContradiction then
                    (case contradictedField entity1 entity2 of
                       (conflictField, ctype) \<Rightarrow>
                         [\<lparr>field = conflictField, detailValues = vals, conflictType = ctype,
                           severity = High\<rparr>])
                  else if isDifferent then
                    (case differingField entity1 entity2 of
                       (conflictField, ctype) \<Rightarrow>
                         [\<lparr>field = conflictField, detailValues = vals, conflictType = ctype,
                           severity = Medium\<rparr>])
                  else [])
            else [])
      else [])"

definition phoneDetails :: "YextEntity \<Rightarrow> YextEntity \<Rightarrow> ConflictDetail list" where
  "phoneDetails entity1 entity2 =
     (if truthy (mainPhone entity1) \<and> truthy (mainPhone entity2) then
        (let phone1 = normalizePhone (stringOr (mainPhone entity1));
             phone2 = normalizePhone (stringOr (mainPhone entity2))
         in if phone1 = phone2 \<and> name entity1 \<noteq> name entity2 then
              [\<lparr>field = ''mainPhone'',
                detailValues = [toValue entity1 (stringOr (mainPhone entity1)),
                                toValue entity2 (stringOr (mainPhone entity2))],
                conflictType = ''phone_mismatch'',
                severity = Medium\<rparr>]
            else [])
      else [])"

definition urlDetails :: "YextEntity \<Rightarrow> YextEntity \<Rightarrow> ConflictDetail list" where
  "urlDetails entity1 entity2 =
     (if truthy (websiteUrl entity1) \<and> truthy (websiteUrl entity2) \<and>
         websiteUrl entity1 = websiteUrl entity2 \<and> name entity1 \<noteq> name entity2 then
        [\<lparr>field = ''websiteUrl'',
          detailValues = [toValue entity1 (stringOr (websiteUrl entity1)),
                          toValue entity2 (stringOr (websiteUrl entity2))],
          conflictType = ''url_mismatch'',
          severity = Medium\<rparr>]
      else [])"

definition pairDetails :: "YextEntity \<Rightarrow> YextEntity \<Rightarrow> ConflictDetail list" where
  "pairDetails entity1 entity2 =
     contentDetails entity1 entity2 @ phoneDetails entity1 entity2 @ urlDetails entity1 entity2"

definition pairGroupId :: "YextEntity \<Rightarrow> YextEntity \<Rightarrow> string" where
  \<comment> \<open>\<^verbatim>\<open>`conflict-${entity1.name}-${entity2.name}`\<close>\<close>
  "pairGroupId entity1 entity2 =
     ''conflict-'' @ templ (name entity1) @ ''-'' @ templ (name entity2)"

definition pairConflict :: "YextEntity \<Rightarrow> YextEntity \<Rightarrow> ConflictGroup list" where
  "pairConflict entity1 entity2 =
     (let details = pairDetails entity1 entity2
      in if details \<noteq> [] then
           [\<lparr>groupId = pairGroupId entity1 entity2,
             title = ''Potential conflict between '' @ [CHR 0x22] @ templ (name entity1) @
                     [CHR 0x22] @ '' and '' @ [CHR 0x22] @ templ (name entity2) @ [CHR 0x22],
             entities = [toRef entity1, toRef entity2],
             conflictDetails = details,
             groupSeverity = (if list_ex (\<lambda>c. severity c = High) details then High
                              else if list_ex (\<lambda>c. severity c = Medium) details then Medium
                              else Low)\<rparr>]
         else [])"

text \<open>
  The two nested loops \<^verbatim>\<open>for i\<close>, \<^verbatim>\<open>for j = i + 1\<close>: every pair of positions
  \<open>i < j\<close>, in the order of the loops.
\<close>

fun pairs :: "'a list \<Rightarrow> ('a \<times> 'a) list" where
  "pairs [] = []"
| "pairs (x # xs) = map (Pair x) xs @ pairs xs"

definition typeConflicts :: "YextEntity list \<Rightarrow> ConflictGroup list" where
  "typeConflicts es =
     (let nonFaqEntities = filter (\<lambda>e. \<not> isExcludedType e) es
      in if nonFaqEntities \<noteq> [] then
           concat (map (\<lambda>(bucket, entityGroup).
                     concat (map (\<lambda>(entity1, entity2). pairConflict entity1 entity2)
                                 (pairs entityGroup)))
                   (groupBy bucketOf nonFaqEntities))
         else [])"

definition detectConflicts :: "YextEntity list \<Rightarrow> ConflictGroup list" where
  "detectConflicts es = faqConflicts es @ typeConflicts es"

section \<open>SummaryAggregator\<close>

definition affectedIds :: "ConflictGroup list \<Rightarrow> string list" where
  \<comment> \<open>the members of the set built by the two nested \<^verbatim>\<open>forEach\<close>, each once\<close>
  "affectedIds conflicts =
     remdups (concat (map (\<lambda>conflict. concat (map (\<lambda>entity.
        if truthy (ref_id entity) then [stringOr (ref_id entity)] else [])
        (entities conflict))) conflicts))"

definition getConflictSummary :: "ConflictGroup list \<Rightarrow> Summary" where
  "getConflictSummary conflicts =
     \<lparr>totalConflicts = length conflicts,
      highSeverity = length (filter (\<lambda>c. groupSeverity c = High) conflicts),
      mediumSeverity = length (filter (\<lambda>c. groupSeverity c = Medium) conflicts),
      lowSeverity = length (filter (\<lambda>c. groupSeverity c = Low) conflicts),
      affectedEntities = length (affectedIds conflicts)\<rparr>"

section \<open>Notions of the specification\<close>

text \<open>
  The severity order \<open>high > medium > low\<close> and the greatest severity of a list of
  details, in the words of the specification.
\<close>

fun severityRank :: "severity \<Rightarrow> nat" where
  "severityRank High = 2"
| "severityRank Medium = 1"
| "severityRank Low = 0"

fun maxSeverity :: "severity list \<Rightarrow> severity" where
  "maxSeverity [] = Low"
| "maxSeverity (x # xs) =
     (if severityRank (maxSeverity xs) \<le> severityRank x then x else maxSeverity xs)"

text \<open>
  The conflict types a comparison of contents can report (the content family), and the
  identifiers that appear in the entities of a list of groups, each once.
\<close>

definition contentFamily :: "string list" where
  "contentFamily = [''body_content_contradiction'', ''content_contradiction'',
                    ''description_contradiction'', ''body_content_conflict'',
                    ''content_conflict'', ''description_conflict'', ''inconsistent_data'']"

definition identifiersAppearing :: "ConflictGroup list \<Rightarrow> string list" where
  "identifiersAppearing conflicts =
     remdups (concat (map (\<lambda>conflict. concat (map (\<lambda>entity.
        case ref_id entity of None \<Rightarrow> [] | Some i \<Rightarrow> [i]) (entities conflict))) conflicts))"

text \<open>
  The invariants of the table of \<open>calculateSimilarity\<close>: its shape, and the cells
  that already hold the edit distance of their two prefixes when the loops stand at row
  \<open>J\<close>, column \<open>I\<close>.
\<close>

definition wellShaped :: "nat \<Rightarrow> nat \<Rightarrow> matrix \<Rightarrow> bool" where
  "wellShaped len1 len2 m = (length m = Suc len2 \<and> (\<forall>j \<le> len2. length (m ! j) = Suc len1))"

definition filledUpTo :: "'a list \<Rightarrow> 'a list \<Rightarrow> nat \<Rightarrow> nat \<Rightarrow> matrix \<Rightarrow> bool" where
  "filledUpTo str1 str2 J I m =
     (\<forall>j \<le> length str2. \<forall>i \<le> length str1.
        (j = 0 \<or> i = 0 \<or> j < J \<or> (j = J \<and> i < I)) \<longrightarrow>
        m ! j ! i = levenshtein str1 str2 i j)"

text \<open>
  The shape of a normalized text: every character is a word character or white space and
  is its own lower case (\<open>plain\<close>); every white space is a single space with no white
  space after it (\<open>tidy\<close>).
\<close>

definition plain :: "string \<Rightarrow> bool" where
  "plain cs = (\<forall>c \<in> set cs. (isWordChar c \<or> isSpaceChar c) \<and> toLowerChar c = c)"

fun tidy :: "string \<Rightarrow> bool" where
  "tidy [] = True"
| "tidy [c] = (isSpaceChar c \<longrightarrow> c = CHR '' '')"
| "tidy (c # d # cs) = ((isSpaceChar c \<longrightarrow> c = CHR '' '' \<and> \<not> isSpaceChar d) \<and> tidy (d # cs))"

section \<open>Example records\<close>

definition record0 :: YextEntity where
  "record0 = \<lparr>id' = None, name = None, description = None, content = None, answer = None,
     mainPhone = None, websiteUrl = None, body = None, bodyV2 = None,
     richTextDescription = None, richText = None, meta = None\<rparr>"

definition typed :: "string \<Rightarrow> string \<Rightarrow> string \<Rightarrow> YextEntity" where
  "typed t i n = record0\<lparr>id' := Some i, name := Some n,
                         meta := Some \<lparr>meta_id = None, entityType = Some t\<rparr>\<rparr>"

text \<open>The two answers to one question, from the specification.\<close>

definition faqA :: YextEntity where
  "faqA = (typed ''faq'' ''faq-1'' ''What are your hours?'')\<lparr>answer := Some ''We close at 5pm''\<rparr>"

definition faqB :: YextEntity where
  "faqB = (typed ''faq'' ''faq-2'' ''What are your hours?'')\<lparr>answer := Some ''We close at 9pm''\<rparr>"

text \<open>The two descriptions of the contradiction example of the specification.\<close>

definition openOnSundays :: string where
  "openOnSundays = ''The store is open on Sundays''"

definition notOpenOnSundays :: string where
  "notOpenOnSundays = ''The store is not open on Sundays''"

definition storeA :: YextEntity where
  "storeA = (typed ''product'' ''p-1'' ''Store A'')\<lparr>description := Some openOnSundays\<rparr>"

definition storeB :: YextEntity where
  "storeB = (typed ''product'' ''p-2'' ''Store B'')\<lparr>description := Some notOpenOnSundays\<rparr>"

text \<open>
  Two records whose names and contents agree once normalized and that share a phone
  number; two differently named records that share a phone number and a website; two
  whose phone and website fields are present and empty; three records, two of them with
  the same name, that share a phone number.
\<close>

definition cafeA :: YextEntity where
  "cafeA = (typed ''restaurant'' ''r-1'' ''Cafe Roma'')
             \<lparr>description := Some ''Italian food'', mainPhone := Some ''555-0100''\<rparr>"

definition cafeB :: YextEntity where
  "cafeB = (typed ''restaurant'' ''r-2'' ''cafe roma'')
             \<lparr>description := Some ''Italian food.'', mainPhone := Some ''(555) 0100''\<rparr>"

definition pizzaA :: YextEntity where
  "pizzaA = (typed ''restaurant'' ''r-3'' ''Luigi Pizza'')
              \<lparr>mainPhone := Some ''555-0100'', websiteUrl := Some ''https://example.com''\<rparr>"

definition deliB :: YextEntity where
  "deliB = (typed ''restaurant'' ''r-4'' ''Deli Corner'')
             \<lparr>mainPhone := Some ''555 0100'', websiteUrl := Some ''https://example.com''\<rparr>"

definition blankA :: YextEntity where
  "blankA = (typed ''restaurant'' ''r-5'' ''Luigi Pizza'')
              \<lparr>mainPhone := Some [], websiteUrl := Some []\<rparr>"

definition blankB :: YextEntity where
  "blankB = (typed ''restaurant'' ''r-6'' ''Deli Corner'')
              \<lparr>mainPhone := Some [], websiteUrl := Some []\<rparr>"

definition twinA :: YextEntity where
  "twinA = (typed ''restaurant'' ''r-7'' ''Store'')\<lparr>mainPhone := Some ''555-0100''\<rparr>"

definition twinB :: YextEntity where
  "twinB = (typed ''restaurant'' ''r-8'' ''Store'')\<lparr>mainPhone := Some ''555-0100''\<rparr>"

definition shopC :: YextEntity where
  "shopC = (typed ''restaurant'' ''r-9'' ''Shop'')\<lparr>mainPhone := Some ''555-0100''\<rparr>"

section \<open>Evaluating the character classes\<close>

text \<open>
  The character classes read off the eight bits of a character; these equations make the
  evaluation of the definitions above on concrete texts fast.
\<close>

lemma isDigitChar_bits [code]:
  "isDigitChar (Char b0 b1 b2 b3 b4 b5 b6 b7) \<longleftrightarrow>
     \<not> b7 \<and> \<not> b6 \<and> b5 \<and> b4 \<and> (\<not> b3 \<or> (\<not> b2 \<and> \<not> b1))"
  by (cases b0; cases b1; cases b2; cases b3; cases b4; cases b5; cases b6; cases b7;
      simp add: isDigitChar_def)

lemma isSpaceChar_bits [code]:
  "isSpaceChar (Char b0 b1 b2 b3 b4 b5 b6 b7) \<longleftrightarrow>
     (\<not> b7 \<and> \<not> b6 \<and> \<not> b5 \<and> \<not> b4 \<and> b3 \<and> (\<not> b2 \<and> (b1 \<or> b0) \<or> b2 \<and> \<not> b1))
     \<or> (\<not> b6 \<and> b5 \<and> \<not> b4 \<and> \<not> b3 \<and> \<not> b2 \<and> \<not> b1 \<and> \<not> b0)"
  by (cases b0; cases b1; cases b2; cases b3; cases b4; cases b5; cases b6; cases b7;
      simp add: isSpaceChar_def)

lemma isLineTerminator_bits [code]:
  "isLineTerminator (Char b0 b1 b2 b3 b4 b5 b6 b7) \<longleftrightarrow>
     \<not> b7 \<and> \<not> b6 \<and> \<not> b5 \<and> \<not> b4 \<and> b3 \<and> ((\<not> b2 \<and> b1 \<and> \<not> b0) \<or> (b2 \<and> \<not> b1 \<and> b0))"
  by (cases b0; cases b1; cases b2; cases b3; cases b4; cases b5; cases b6; cases b7;
      simp add: isLineTerminator_def)

lemma isAsciiLetter_bits [code]:
  "isAsciiLetter (Char b0 b1 b2 b3 b4 b5 b6 b7) \<longleftrightarrow>
     \<not> b7 \<and> b6 \<and> (b0 \<or> b1 \<or> b2 \<or> b3 \<or> b4) \<and> \<not> (b4 \<and> b3 \<and> (b2 \<or> b1 \<and> b0))"
  by (cases b0; cases b1; cases b2; cases b3; cases b4; cases b5; cases b6; cases b7;
      simp add: isAsciiLetter_def)

lemma isWordChar_bits [code]:
  "isWordChar (Char b0 b1 b2 b3 b4 b5 b6 b7) \<longleftrightarrow>
     \<not> b7 \<and>
     ((\<not> b6 \<and> b5 \<and> b4 \<and> (\<not> b3 \<or> (\<not> b2 \<and> \<not> b1))) \<or>
      (b6 \<and> (b0 \<or> b1 \<or> b2 \<or> b3 \<or> b4) \<and> \<not> (b4 \<and> b3 \<and> (b2 \<or> b1 \<and> b0))) \<or>
      (b6 \<and> \<not> b5 \<and> b4 \<and> b3 \<and> b2 \<and> b1 \<and> b0))"
  by (cases b0; cases b1; cases b2; cases b3; cases b4; cases b5; cases b6; cases b7;
      simp add: isWordChar_def)

lemma toLowerChar_bits [code]:
  "toLowerChar (Char b0 b1 b2 b3 b4 b5 b6 b7) =
     (if \<not> b5 \<and> b6 \<and>
         (if b7 then \<not> (b0 \<and> b1 \<and> b2 \<and> b3 \<and> b4) \<and> \<not> (b0 \<and> b1 \<and> b2 \<and> \<not> b3 \<and> b4)
          else (b0 \<or> b1 \<or> b2 \<or> b3 \<or> b4) \<and> \<not> (b4 \<and> b3 \<and> (b2 \<or> b1 \<and> b0)))
      then Char b0 b1 b2 b3 b4 True b6 b7
      else Char b0 b1 b2 b3 b4 b5 b6 b7)"
  by (cases b0; cases b1; cases b2; cases b3; cases b4; cases b5; cases b6; cases b7;
      simp add: toLowerChar_def char_of_def bit_0)

section \<open>The similarity score is the edit distance, scaled\<close>

lemma levenshtein_zero_right [simp]: "levenshtein s t i 0 = i"
  by (cases i) simp_all

lemma filledUpToD:
  "filledUpTo str1 str2 J I m \<Longrightarrow> j \<le> length str2 \<Longrightarrow> i \<le> length str1 \<Longrightarrow>
   j = 0 \<or> i = 0 \<or> j < J \<or> (j = J \<and> i < I) \<Longrightarrow> m ! j ! i = levenshtein str1 str2 i j"
  unfolding filledUpTo_def by blast

lemma filledUpToI:
  "(\<And>j i. j \<le> length str2 \<Longrightarrow> i \<le> length str1 \<Longrightarrow>
      j = 0 \<or> i = 0 \<or> j < J \<or> (j = J \<and> i < I) \<Longrightarrow> m ! j ! i = levenshtein str1 str2 i j)
   \<Longrightarrow> filledUpTo str1 str2 J I m"
  unfolding filledUpTo_def by blast

lemma setCell_shape:
  "wellShaped len1 len2 m \<Longrightarrow> wellShaped len1 len2 (setCell m j i v)"
proof (cases "j < length m")
  case True
  assume "wellShaped len1 len2 m"
  then show ?thesis
    using True by (auto simp: wellShaped_def setCell_def nth_list_update)
next
  case False
  assume "wellShaped len1 len2 m"
  then show ?thesis
    using False by (simp add: setCell_def list_update_beyond)
qed

lemma setCell_nth:
  "wellShaped len1 len2 m \<Longrightarrow> j \<le> len2 \<Longrightarrow> i \<le> len1 \<Longrightarrow> j' \<le> len2 \<Longrightarrow> i' \<le> len1 \<Longrightarrow>
   setCell m j i v ! j' ! i' = (if j' = j \<and> i' = i then v else m ! j' ! i')"
  by (auto simp: wellShaped_def setCell_def nth_list_update)

lemma init_row:
  "n \<le> Suc len1 \<Longrightarrow> wellShaped len1 len2 m \<Longrightarrow>
   wellShaped len1 len2 (foldl (\<lambda>m i. setCell m 0 i i) m [0 ..< n]) \<and>
   (\<forall>i < n. foldl (\<lambda>m i. setCell m 0 i i) m [0 ..< n] ! 0 ! i = i)"
proof (induction n)
  case 0
  then show ?case by simp
next
  case (Suc n)
  then show ?case by (auto simp: setCell_shape setCell_nth less_Suc_eq)
qed

lemma init_column:
  "n \<le> Suc len2 \<Longrightarrow> wellShaped len1 len2 m \<Longrightarrow>
   wellShaped len1 len2 (foldl (\<lambda>m j. setCell m j 0 j) m [0 ..< n]) \<and>
   (\<forall>j < n. foldl (\<lambda>m j. setCell m j 0 j) m [0 ..< n] ! j ! 0 = j) \<and>
   (\<forall>j \<le> len2. \<forall>i \<le> len1. 0 < i \<longrightarrow>
      foldl (\<lambda>m j. setCell m j 0 j) m [0 ..< n] ! j ! i = m ! j ! i)"
proof (induction n)
  case 0
  then show ?case by simp
next
  case (Suc n)
  then show ?case by (auto simp: setCell_shape setCell_nth less_Suc_eq)
qed

lemma cellValue_levenshtein:
  assumes "filledUpTo str1 str2 j i m" "0 < i" "i \<le> length str1" "0 < j" "j \<le> length str2"
  shows "cellValue str1 str2 m j i = levenshtein str1 str2 i j"
proof -
  obtain i' j' where ij: "i = Suc i'" "j = Suc j'"
    using assms(2,4) by (metis Suc_pred)
  have a: "m ! j ! (i - 1) = levenshtein str1 str2 i' j"
    using filledUpToD [OF assms(1), of j i'] assms ij by simp
  have b: "m ! (j - 1) ! i = levenshtein str1 str2 i j'"
    using filledUpToD [OF assms(1), of j' i] assms ij by simp
  have c: "m ! (j - 1) ! (i - 1) = levenshtein str1 str2 i' j'"
    using filledUpToD [OF assms(1), of j' i'] assms ij by simp
  show ?thesis
    using a b c ij by (simp add: cellValue_def)
qed

lemma fillRow_step:
  assumes "wellShaped (length str1) (length str2) m" "filledUpTo str1 str2 j i m"
    "0 < i" "i \<le> length str1" "0 < j" "j \<le> length str2"
  shows "filledUpTo str1 str2 j (Suc i) (setCell m j i (cellValue str1 str2 m j i))"
proof (rule filledUpToI)
  fix j' i'
  assume b: "j' \<le> length str2" "i' \<le> length str1"
    and c: "j' = 0 \<or> i' = 0 \<or> j' < j \<or> j' = j \<and> i' < Suc i"
  have upd: "setCell m j i (cellValue str1 str2 m j i) ! j' ! i' =
      (if j' = j \<and> i' = i then cellValue str1 str2 m j i else m ! j' ! i')"
    by (rule setCell_nth [OF assms(1) assms(6) assms(4) b])
  show "setCell m j i (cellValue str1 str2 m j i) ! j' ! i' = levenshtein str1 str2 i' j'"
  proof (cases "j' = j \<and> i' = i")
    case True
    then show ?thesis
      using upd cellValue_levenshtein [OF assms(2-6)] by simp
  next
    case False
    then have "j' = 0 \<or> i' = 0 \<or> j' < j \<or> j' = j \<and> i' < i"
      using c by auto
    then have "m ! j' ! i' = levenshtein str1 str2 i' j'"
      using filledUpToD [OF assms(2) b] by blast
    then show ?thesis
      using False upd by auto
  qed
qed

lemma fillRow_prefix:
  assumes "wellShaped (length str1) (length str2) m" "filledUpTo str1 str2 j 1 m"
    "0 < j" "j \<le> length str2"
  shows "n \<le> length str1 \<Longrightarrow>
    wellShaped (length str1) (length str2)
      (foldl (\<lambda>m i. setCell m j i (cellValue str1 str2 m j i)) m [1 ..< Suc n]) \<and>
    filledUpTo str1 str2 j (Suc n)
      (foldl (\<lambda>m i. setCell m j i (cellValue str1 str2 m j i)) m [1 ..< Suc n])"
proof (induction n)
  case 0
  then show ?case using assms by simp
next
  case (Suc n)
  then show ?case
    using assms(3,4) by (simp add: setCell_shape fillRow_step)
qed

lemma fillRow_correct:
  assumes "wellShaped (length str1) (length str2) m" "filledUpTo str1 str2 j 1 m"
    "0 < j" "j \<le> length str2"
  shows "wellShaped (length str1) (length str2) (fillRow str1 str2 m j) \<and>
         filledUpTo str1 str2 (Suc j) 1 (fillRow str1 str2 m j)"
proof -
  let ?m = "fillRow str1 str2 m j"
  have a: "wellShaped (length str1) (length str2) ?m"
    and b: "filledUpTo str1 str2 j (Suc (length str1)) ?m"
    using fillRow_prefix [OF assms, of "length str1"] by (simp_all add: fillRow_def)
  have "filledUpTo str1 str2 (Suc j) 1 ?m"
  proof (rule filledUpToI)
    fix j' i'
    assume c: "j' \<le> length str2" "i' \<le> length str1"
      and d: "j' = 0 \<or> i' = 0 \<or> j' < Suc j \<or> j' = Suc j \<and> i' < 1"
    have "j' = 0 \<or> i' = 0 \<or> j' < j \<or> j' = j \<and> i' < Suc (length str1)"
      using c d by auto
    then show "?m ! j' ! i' = levenshtein str1 str2 i' j'"
      using filledUpToD [OF b c] by blast
  qed
  then show ?thesis using a by simp
qed

lemma fillRows_prefix:
  assumes "wellShaped (length str1) (length str2) m" "filledUpTo str1 str2 1 1 m"
  shows "n \<le> length str2 \<Longrightarrow>
    wellShaped (length str1) (length str2) (foldl (fillRow str1 str2) m [1 ..< Suc n]) \<and>
    filledUpTo str1 str2 (Suc n) 1 (foldl (fillRow str1 str2) m [1 ..< Suc n])"
proof (induction n)
  case 0
  then show ?case using assms by simp
next
  case (Suc n)
  then show ?case
    using fillRow_correct [of str1 str2 "foldl (fillRow str1 str2) m [1 ..< Suc n]" "Suc n"]
    by simp
qed

lemma levenshteinMatrix_cell:
  assumes "j \<le> length str2" "i \<le> length str1"
  shows "levenshteinMatrix str1 str2 ! j ! i = levenshtein str1 str2 i j"
proof -
  let ?l1 = "length str1" and ?l2 = "length str2"
  let ?m0 = "replicate (?l2 + 1) (replicate (?l1 + 1) (0::nat))"
  let ?m1 = "foldl (\<lambda>m i. setCell m 0 i i) ?m0 [0 ..< Suc ?l1]"
  let ?m2 = "foldl (\<lambda>m j. setCell m j 0 j) ?m1 [0 ..< Suc ?l2]"
  have s0: "wellShaped ?l1 ?l2 ?m0"
    unfolding wellShaped_def by (auto simp del: replicate.simps simp: nth_replicate)
  have s1: "wellShaped ?l1 ?l2 ?m1" and r1: "\<forall>i < Suc ?l1. ?m1 ! 0 ! i = i"
    using init_row [OF le_refl s0] by blast+
  have s2: "wellShaped ?l1 ?l2 ?m2" and c2: "\<forall>j < Suc ?l2. ?m2 ! j ! 0 = j"
    and k2: "\<forall>j \<le> ?l2. \<forall>i \<le> ?l1. 0 < i \<longrightarrow> ?m2 ! j ! i = ?m1 ! j ! i"
    using init_column [OF le_refl s1] by blast+
  have f2: "filledUpTo str1 str2 1 1 ?m2"
  proof (rule filledUpToI)
    fix j i
    assume b: "j \<le> ?l2" "i \<le> ?l1" and c: "j = 0 \<or> i = 0 \<or> j < 1 \<or> j = 1 \<and> i < 1"
    show "?m2 ! j ! i = levenshtein str1 str2 i j"
    proof (cases "i = 0")
      case True
      then show ?thesis using c2 b by simp
    next
      case False
      then have "j = 0" using c by auto
      then show ?thesis using False k2 r1 b by simp
    qed
  qed
  have "filledUpTo str1 str2 (Suc ?l2) 1 (levenshteinMatrix str1 str2)"
    using fillRows_prefix [OF s2 f2 le_refl] by (simp add: levenshteinMatrix_def Let_def)
  then show ?thesis
    using filledUpToD [of str1 str2 "Suc ?l2" 1 _ j i] assms by (simp add: less_Suc_eq_le)
qed

lemma levenshtein_sym: "levenshtein s t i j = levenshtein t s j i"
proof (induction s t i j rule: levenshtein.induct)
  case (1 s t j)
  then show ?case by simp
next
  case (2 s t i)
  then show ?case by simp
next
  case (3 s t i j)
  then show ?case by (simp add: min.commute eq_commute)
qed

lemma levenshtein_same: "levenshtein s s n n = 0"
  by (induction n) simp_all

lemma levenshtein_le_max: "levenshtein s t i j \<le> max i j"
proof (induction s t i j rule: levenshtein.induct)
  case (3 s t i j)
  then show ?case by (auto simp: min_def max_def split: if_splits)
qed simp_all

text \<open>The recurrence computes the least number of edits.\<close>

lemma levenshtein_prefix:
  "i \<le> length s \<Longrightarrow> j \<le> length t \<Longrightarrow>
   levenshtein (s @ s') (t @ t') i j = levenshtein s t i j"
proof (induction s t i j rule: levenshtein.induct)
  case (1 s t j)
  then show ?case by simp
next
  case (2 s t i)
  then show ?case by simp
next
  case (3 s t i j)
  then show ?case by (simp add: nth_append)
qed

lemma editDistance_nil [simp]: "editDistance [] t = length t" "editDistance s [] = length s"
  by (simp_all add: editDistance_def)

lemma editDistance_snoc:
  "editDistance (s @ [a]) (t @ [b]) =
     min (min (editDistance s (t @ [b]) + 1) (editDistance (s @ [a]) t + 1))
         (editDistance s t + (if a = b then 0 else 1))"
proof -
  have a: "levenshtein (s @ [a]) (t @ [b]) (length s) (Suc (length t)) =
           levenshtein s (t @ [b]) (length s) (Suc (length t))"
    using levenshtein_prefix [of "length s" s "Suc (length t)" "t @ [b]" "[a]" "[]"] by simp
  have b: "levenshtein (s @ [a]) (t @ [b]) (Suc (length s)) (length t) =
           levenshtein (s @ [a]) t (Suc (length s)) (length t)"
    using levenshtein_prefix [of "Suc (length s)" "s @ [a]" "length t" t "[]" "[b]"] by simp
  have c: "levenshtein (s @ [a]) (t @ [b]) (length s) (length t) =
           levenshtein s t (length s) (length t)"
    using levenshtein_prefix [of "length s" s "length t" t "[a]" "[b]"] by simp
  show ?thesis
    by (simp add: editDistance_def a b c)
qed

lemma editDistance_delete: "editDistance (s @ [a]) t \<le> editDistance s t + 1"
proof (cases t rule: rev_cases)
  case Nil
  then show ?thesis by simp
next
  case (snoc t' b)
  then show ?thesis by (simp add: editDistance_snoc)
qed

lemma editDistance_insert: "editDistance s (t @ [b]) \<le> editDistance s t + 1"
proof (cases s rule: rev_cases)
  case Nil
  then show ?thesis by simp
next
  case (snoc s' a)
  then show ?thesis by (simp add: editDistance_snoc)
qed

lemma edits_at_least: "edits s t n \<Longrightarrow> editDistance s t \<le> n"
proof (induction rule: edits.induct)
  case edits_nil
  then show ?case by simp
next
  case (edits_keep s t n a)
  then show ?case by (simp add: editDistance_snoc min.coboundedI2)
next
  case (edits_substitute s t n a b)
  then show ?case by (simp add: editDistance_snoc min.coboundedI2)
next
  case (edits_delete s t n a)
  then show ?case using editDistance_delete [of s a t] by simp
next
  case (edits_insert s t n b)
  then show ?case using editDistance_insert [of s t b] by simp
qed

lemma edits_insert_all: "edits [] t (length t)"
proof (induction t rule: rev_induct)
  case Nil
  then show ?case by (simp add: edits_nil)
next
  case (snoc b t)
  then show ?case using edits_insert [of "[]" t "length t" b] by simp
qed

lemma edits_delete_all: "edits s [] (length s)"
proof (induction s rule: rev_induct)
  case Nil
  then show ?case by (simp add: edits_nil)
next
  case (snoc a s)
  then show ?case using edits_delete [of s "[]" "length s" a] by simp
qed

lemma edits_attained: "edits s t (editDistance s t)"
proof (induction "length s + length t" arbitrary: s t rule: less_induct)
  case less
  show ?case
  proof (cases s rule: rev_cases)
    case Nil
    then show ?thesis by (simp add: edits_insert_all)
  next
    case s: (snoc s' a)
    show ?thesis
    proof (cases t rule: rev_cases)
      case Nil
      then show ?thesis by (simp add: edits_delete_all)
    next
      case t: (snoc t' b)
      have ih1: "edits s' t (editDistance s' t)"
        using less [of s' t] s by simp
      have ih2: "edits s t' (editDistance s t')"
        using less [of s t'] t by simp
      have ih3: "edits s' t' (editDistance s' t')"
        using less [of s' t'] s t by simp
      let ?d = "editDistance s t"
      have rec: "?d = min (min (editDistance s' t + 1) (editDistance s t' + 1))
                       (editDistance s' t' + (if a = b then 0 else 1))"
        using editDistance_snoc [of s' a t' b] s t by simp
      consider (del) "?d = editDistance s' t + 1" | (ins) "?d = editDistance s t' + 1"
        | (sub) "?d = editDistance s' t' + (if a = b then 0 else 1)"
        using rec by (auto simp: min_def split: if_splits)
      then show ?thesis
      proof cases
        case del
        then show ?thesis using edits_delete [OF ih1, of a] s by simp
      next
        case ins
        then show ?thesis using edits_insert [OF ih2, of b] t by simp
      next
        case sub
        show ?thesis
        proof (cases "a = b")
          case True
          then show ?thesis using edits_keep [OF ih3, of a] sub s t by simp
        next
          case False
          then show ?thesis using edits_substitute [OF ih3, of a b] sub s t by simp
        qed
      qed
    qed
  qed
qed

lemma calculateSimilarity_distance:
  assumes "str1 \<noteq> [] \<or> str2 \<noteq> []"
  shows "calculateSimilarity str1 str2 =
     (of_nat (max (length str1) (length str2)) -
      of_nat (levenshtein str1 str2 (length str1) (length str2))) /
     of_nat (max (length str1) (length str2))"
proof (cases "str1 = []")
  case True
  then show ?thesis using assms by (simp add: calculateSimilarity_def)
next
  case False
  note ne1 = this
  show ?thesis
  proof (cases "str2 = []")
    case True
    then show ?thesis using ne1 by (simp add: calculateSimilarity_def)
  next
    case False
    then show ?thesis
      using ne1 by (simp add: calculateSimilarity_def Let_def levenshteinMatrix_cell)
  qed
qed

text \<open>
  C7. The similarity of a text with itself is 1, of two empty texts 1, of the empty text
  and \<open>abc\<close> 0; the score is symmetric; unless both texts are empty (where the score
  is 1 by the special rule) it is the greater length minus the edit distance, over the
  greater length; and it lies between 0 and 1. The edit distance is the least number of
  insertions, deletions and substitutions that turn one text into the other.
\<close>

theorem calculateSimilarity_properties:
  fixes s s1 s2 :: string
  shows "calculateSimilarity s s = 1
       \<and> calculateSimilarity ([] :: string) [] = 1
       \<and> calculateSimilarity [] ''abc'' = 0
       \<and> calculateSimilarity s1 s2 = calculateSimilarity s2 s1
       \<and> (s1 \<noteq> [] \<or> s2 \<noteq> [] \<longrightarrow>
            calculateSimilarity s1 s2 =
              (of_nat (max (length s1) (length s2)) - of_nat (editDistance s1 s2)) /
              of_nat (max (length s1) (length s2)))
       \<and> edits s1 s2 (editDistance s1 s2)
       \<and> (\<forall>n. edits s1 s2 n \<longrightarrow> editDistance s1 s2 \<le> n)
       \<and> 0 \<le> calculateSimilarity s1 s2 \<and> calculateSimilarity s1 s2 \<le> 1"
proof -
  have same: "calculateSimilarity s s = 1"
  proof (cases "s = []")
    case True
    then show ?thesis by (simp add: calculateSimilarity_def)
  next
    case False
    then show ?thesis
      using calculateSimilarity_distance [of s s] by (simp add: levenshtein_same)
  qed
  have empty: "calculateSimilarity ([] :: string) [] = 1"
    by (simp add: calculateSimilarity_def)
  have abc: "calculateSimilarity [] ''abc'' = 0"
    by (simp add: calculateSimilarity_def)
  have sym: "calculateSimilarity s1 s2 = calculateSimilarity s2 s1"
  proof (cases "s1 = [] \<and> s2 = []")
    case True
    then show ?thesis by simp
  next
    case False
    then have a: "s1 \<noteq> [] \<or> s2 \<noteq> []" and b: "s2 \<noteq> [] \<or> s1 \<noteq> []" by auto
    show ?thesis
      using calculateSimilarity_distance [OF a] calculateSimilarity_distance [OF b]
        levenshtein_sym [of s1 s2 "length s1" "length s2"]
      by (simp add: max.commute)
  qed
  have bounds: "0 \<le> calculateSimilarity s1 s2 \<and> calculateSimilarity s1 s2 \<le> 1"
  proof (cases "s1 = [] \<and> s2 = []")
    case True
    then show ?thesis by (simp add: calculateSimilarity_def)
  next
    case False
    then have a: "s1 \<noteq> [] \<or> s2 \<noteq> []" by auto
    let ?n = "max (length s1) (length s2)"
    let ?d = "levenshtein s1 s2 (length s1) (length s2)"
    have pos: "0 < ?n" using a by (cases s1; cases s2; simp)
    have le: "?d \<le> ?n" by (rule levenshtein_le_max)
    have eq: "calculateSimilarity s1 s2 = (of_nat ?n - of_nat ?d) / of_nat ?n"
      by (rule calculateSimilarity_distance [OF a])
    have "(0::rat) \<le> (of_nat ?n - of_nat ?d) / of_nat ?n"
      using le pos by (simp add: divide_nonneg_pos)
    moreover have "(of_nat ?n - of_nat ?d) / of_nat ?n \<le> (1::rat)"
      using pos by (simp add: divide_le_eq)
    ultimately show ?thesis using eq by simp
  qed
  have least: "\<forall>n. edits s1 s2 n \<longrightarrow> editDistance s1 s2 \<le> n"
    using edits_at_least by blast
  show ?thesis
    using same empty abc sym bounds calculateSimilarity_distance [of s1 s2]
      edits_attained [of s1 s2] least
    unfolding editDistance_def by blast
qed

theorem calculateSimilarity_properties_witness:
  "''cat'' \<noteq> []
   \<and> editDistance ''cat'' ''cart'' = 1
   \<and> edits ''cat'' ''cart'' 1
   \<and> calculateSimilarity ''cat'' ''cart'' = 3 / 4
   \<and> calculateSimilarity ''cart'' ''cat'' = 3 / 4
   \<and> calculateSimilarity ''cat'' ''cat'' = 1"
proof -
  have d: "editDistance ''cat'' ''cart'' = 1"
    by code_simp
  show ?thesis
    using calculateSimilarity_properties [of "''cat''" "''cat''" "''cart''"]
      calculateSimilarity_properties [of "''cat''" "''cart''" "''cat''"] d
    by simp
qed

section \<open>Normalization\<close>

text \<open>
  C8. \<open>normalizeString\<close> trims before it removes the punctuation, so that a space in
  front of a final punctuation mark survives the first application and is trimmed by the
  second: the function is not idempotent.
\<close>

theorem normalizeString_not_idempotent:
  "normalizeString ''What are your hours ?'' = ''what are your hours ''
   \<and> normalizeString (normalizeString ''What are your hours ?'') = ''what are your hours''
   \<and> normalizeString (normalizeString ''What are your hours ?'')
       \<noteq> normalizeString ''What are your hours ?''"
  by code_simp

text \<open>
  What does hold: a normalized text is plain and tidy, normalizing it again only trims it,
  and from the second application on the function is stable.
\<close>

lemma toLowerChar_idem: "toLowerChar (toLowerChar c) = toLowerChar c"
  by (cases c) (simp add: toLowerChar_bits)

lemma toLowerChar_space: "isSpaceChar c \<Longrightarrow> toLowerChar c = c"
  by (cases c) (auto simp: toLowerChar_bits isSpaceChar_bits)

lemma isSpaceChar_blank [simp]: "isSpaceChar CHR '' ''"
  by code_simp

lemma tidy_tl: "tidy (c # cs) \<Longrightarrow> tidy cs"
  by (cases cs) auto

lemma tidy_dropWhile: "tidy cs \<Longrightarrow> tidy (dropWhile P cs)"
proof (induction cs)
  case Nil
  then show ?case by simp
next
  case (Cons c cs)
  then show ?case using tidy_tl [of c cs] by simp
qed

lemma tidy_append:
  "tidy (xs @ ys) \<longleftrightarrow>
     tidy xs \<and> tidy ys \<and>
     (xs \<noteq> [] \<and> ys \<noteq> [] \<longrightarrow> \<not> (isSpaceChar (last xs) \<and> isSpaceChar (hd ys)))"
proof (induction xs rule: tidy.induct)
  case 1
  then show ?case by simp
next
  case (2 c)
  then show ?case by (cases ys) auto
next
  case (3 c d cs)
  then show ?case by auto
qed

lemma tidy_rev: "tidy (rev xs) = tidy xs"
proof (induction xs)
  case Nil
  then show ?case by simp
next
  case (Cons c cs)
  have "tidy (rev cs @ [c]) \<longleftrightarrow> tidy (c # cs)"
  proof (cases cs)
    case Nil
    then show ?thesis by simp
  next
    case (Cons d ds)
    then show ?thesis
      using Cons.IH by (auto simp: tidy_append last_rev)
  qed
  then show ?case by simp
qed

lemma tidy_trim: "tidy cs \<Longrightarrow> tidy (trim cs)"
  by (simp add: trim_def tidy_rev tidy_dropWhile)

lemma dropWhile_head: "dropWhile P xs = [] \<or> \<not> P (hd (dropWhile P xs))"
  using hd_dropWhile [of P xs] by blast

lemma collapseSpaces_head:
  "v \<noteq> [] \<Longrightarrow> \<not> isSpaceChar (hd v) \<Longrightarrow>
   collapseSpaces v \<noteq> [] \<and> hd (collapseSpaces v) = hd v"
  by (cases v) auto

lemma collapseSpaces_tidy: "tidy (collapseSpaces cs)"
proof (induction cs rule: collapseSpaces.induct)
  case 1
  then show ?case by simp
next
  case (2 c cs)
  show ?case
  proof (cases "isSpaceChar c")
    case True
    let ?r = "dropWhile isSpaceChar cs"
    have t: "tidy (collapseSpaces ?r)" using 2 True by simp
    have "collapseSpaces ?r = [] \<or> \<not> isSpaceChar (hd (collapseSpaces ?r))"
    proof (cases "?r = []")
      case True
      then have "collapseSpaces ?r = []" by (simp only: collapseSpaces.simps)
      then show ?thesis by (rule disjI1)
    next
      case False
      then have "\<not> isSpaceChar (hd ?r)"
        using dropWhile_head [of isSpaceChar cs] by blast
      then show ?thesis
        using collapseSpaces_head [OF False] by simp
    qed
    then have "tidy (CHR '' '' # collapseSpaces ?r)"
      using t by (cases "collapseSpaces ?r") auto
    then show ?thesis
      using True by (simp only: collapseSpaces.simps if_True)
  next
    case False
    then have t: "tidy (collapseSpaces cs)" using 2 by simp
    then have "tidy (c # collapseSpaces cs)"
      using False by (cases "collapseSpaces cs") auto
    then show ?thesis
      using False by (simp only: collapseSpaces.simps if_False)
  qed
qed

lemma collapseSpaces_fixed: "tidy cs \<Longrightarrow> collapseSpaces cs = cs"
proof (induction cs rule: tidy.induct)
  case 1
  then show ?case by simp
next
  case (2 c)
  then show ?case by auto
next
  case (3 c d cs)
  then show ?case by auto
qed

lemma set_collapseSpaces:
  "set (collapseSpaces cs) \<subseteq> {c \<in> set cs. \<not> isSpaceChar c} \<union> {CHR '' ''}"
proof (induction cs rule: collapseSpaces.induct)
  case 1
  then show ?case by simp
next
  case (2 c cs)
  have "set (dropWhile isSpaceChar cs) \<subseteq> set cs"
    by (rule set_dropWhileD [THEN subsetI])
  then show ?case using 2 by (auto split: if_splits)
qed

lemma set_trim: "set (trim cs) \<subseteq> set cs"
  by (auto simp: trim_def dest!: set_dropWhileD)

lemma plain_trim: "plain cs \<Longrightarrow> plain (trim cs)"
  using set_trim by (auto simp: plain_def)

lemma normalizeString_plain: "plain (normalizeString s)"
  unfolding plain_def normalizeString_def
proof
  let ?u = "filter (\<lambda>c. isWordChar c \<or> isSpaceChar c) (trim (toLowerCase s))"
  fix c
  assume "c \<in> set (collapseSpaces ?u)"
  then consider (old) "c \<in> set ?u" | (blank) "c = CHR '' ''"
    using set_collapseSpaces [of ?u] by blast
  then show "(isWordChar c \<or> isSpaceChar c) \<and> toLowerChar c = c"
  proof cases
    case old
    then have "c \<in> set (trim (toLowerCase s))" by simp
    then have "c \<in> set (toLowerCase s)" using set_trim by blast
    then obtain x where "c = toLowerChar x" by (auto simp: toLowerCase_def)
    then have "toLowerChar c = c" by (simp only: toLowerChar_idem)
    then show ?thesis using old by simp
  next
    case blank
    have "toLowerChar CHR '' '' = CHR '' ''" by code_simp
    then show ?thesis using blank by simp
  qed
qed

lemma normalizeString_tidy: "tidy (normalizeString s)"
  by (simp add: normalizeString_def collapseSpaces_tidy)

lemma normalizeString_on_normal:
  assumes "plain t" "tidy t"
  shows "normalizeString t = trim t"
proof -
  have low: "toLowerCase t = t"
    unfolding toLowerCase_def by (rule map_idI) (use assms(1) in \<open>simp add: plain_def\<close>)
  have keep: "filter (\<lambda>c. isWordChar c \<or> isSpaceChar c) (trim t) = trim t"
    using plain_trim [OF assms(1)] by (simp add: plain_def)
  show ?thesis
    by (simp add: normalizeString_def low keep collapseSpaces_fixed tidy_trim assms(2))
qed

lemma trim_trim: "trim (trim cs) = trim cs"
proof -
  let ?a = "dropWhile isSpaceChar cs"
  let ?b = "dropWhile isSpaceChar (rev ?a)"
  have front: "dropWhile isSpaceChar (rev ?b) = rev ?b"
  proof (cases "?b = []")
    case True
    then show ?thesis by (simp only: rev.simps dropWhile.simps)
  next
    case False
    have a: "?a \<noteq> []"
    proof
      assume "?a = []"
      then have "?b = []" by (simp only: rev.simps dropWhile.simps)
      then show False using False by blast
    qed
    have nh: "\<not> isSpaceChar (hd ?a)"
      using a dropWhile_head [of isSpaceChar cs] by blast
    have "last (takeWhile isSpaceChar (rev ?a) @ ?b) = last ?b"
      using False by (rule last_appendR)
    then have "last ?b = last (rev ?a)"
      by (simp only: takeWhile_dropWhile_id)
    then have "last ?b = hd ?a"
      by (simp only: last_rev)
    then have "\<not> isSpaceChar (last ?b)"
      using nh by simp
    then have "\<not> isSpaceChar (hd (rev ?b))"
      by (simp add: hd_rev)
    then show ?thesis
      by (simp only: dropWhile_eq_self_iff) simp
  qed
  show ?thesis
    unfolding trim_def by (simp only: front rev_rev_ident dropWhile_idem)
qed

lemma normalizeString_thrice:
  "normalizeString (normalizeString (normalizeString s)) = normalizeString (normalizeString s)"
proof -
  let ?t = "normalizeString s"
  have one: "normalizeString ?t = trim ?t"
    by (rule normalizeString_on_normal [OF normalizeString_plain normalizeString_tidy])
  have "normalizeString (trim ?t) = trim (trim ?t)"
    by (rule normalizeString_on_normal
        [OF plain_trim [OF normalizeString_plain] tidy_trim [OF normalizeString_tidy]])
  then show ?thesis by (simp add: one trim_trim)
qed

section \<open>Grouping and pairing\<close>

lemma groupBy_snoc: "groupBy f (xs @ [x]) = groupInsert (f x) x (groupBy f xs)"
  by (simp add: groupBy_def)

lemma map_of_groupInsert:
  "map_of (groupInsert k v m) k' =
     (if k' = k then Some (case map_of m k of None \<Rightarrow> [v] | Some vs \<Rightarrow> vs @ [v])
      else map_of m k')"
  by (induction k v m rule: groupInsert.induct) auto

lemma keys_groupInsert:
  "map fst (groupInsert k v m) = (if k \<in> fst ` set m then map fst m else map fst m @ [k])"
  by (induction k v m rule: groupInsert.induct) auto

lemma groupBy_distinct: "distinct (map fst (groupBy f xs))"
proof (induction xs rule: rev_induct)
  case Nil
  then show ?case by (simp add: groupBy_def)
next
  case (snoc x xs)
  then show ?case by (simp add: groupBy_snoc keys_groupInsert)
qed

lemma map_of_groupBy:
  "map_of (groupBy f xs) k =
     (if k \<in> f ` set xs then Some (filter (\<lambda>x. f x = k) xs) else None)"
proof (induction xs rule: rev_induct)
  case Nil
  then show ?case by (simp add: groupBy_def)
next
  case (snoc x xs)
  then show ?case
    by (auto simp: groupBy_snoc map_of_groupInsert filter_empty_conv) (metis imageI)
qed

lemma groupBy_member:
  assumes "(k, vs) \<in> set (groupBy f xs)"
  shows "vs = filter (\<lambda>x. f x = k) xs \<and> k \<in> f ` set xs"
proof -
  have "map_of (groupBy f xs) k = Some vs"
    using assms groupBy_distinct [of f xs] by simp
  then show ?thesis
    by (simp add: map_of_groupBy split: if_splits)
qed

lemma groupBy_memberI:
  assumes "x \<in> set xs"
  shows "(f x, filter (\<lambda>y. f y = f x) xs) \<in> set (groupBy f xs)"
proof -
  have "map_of (groupBy f xs) (f x) = Some (filter (\<lambda>y. f y = f x) xs)"
    using assms by (simp add: map_of_groupBy)
  then show ?thesis by (rule map_of_SomeD)
qed

lemma set_pairs_append:
  "set (pairs (xs @ ys)) = set (pairs xs) \<union> set xs \<times> set ys \<union> set (pairs ys)"
  by (induction xs) auto

lemma pairs_member: "(a, b) \<in> set (pairs (xs @ a # ys @ b # zs))"
  by (simp add: set_pairs_append)

lemma pairs_subset: "(a, b) \<in> set (pairs xs) \<Longrightarrow> a \<in> set xs \<and> b \<in> set xs"
  by (induction xs) auto

section \<open>Where the groups of a detection come from\<close>

lemma typeConflicts_origin:
  assumes "g \<in> set (typeConflicts es)"
  shows "\<exists>entity1 entity2. entity1 \<in> set es \<and> entity2 \<in> set es \<and>
           g \<in> set (pairConflict entity1 entity2)"
proof -
  let ?N = "filter (\<lambda>e. \<not> isExcludedType e) es"
  from assms obtain b grp e1 e2 where
    bg: "(b, grp) \<in> set (groupBy bucketOf ?N)" and p: "(e1, e2) \<in> set (pairs grp)"
    and g: "g \<in> set (pairConflict e1 e2)"
    by (auto simp: typeConflicts_def Let_def split: if_splits)
  have "grp = filter (\<lambda>x. bucketOf x = b) ?N"
    using groupBy_member [OF bg] by simp
  then have "set grp \<subseteq> set es" by auto
  then show ?thesis using pairs_subset [OF p] g by blast
qed

lemma typeConflicts_pair:
  assumes "es = xs @ entity1 # ys @ entity2 # zs"
    "\<not> isExcludedType entity1" "\<not> isExcludedType entity2"
    "bucketOf entity1 = bucketOf entity2"
  shows "set (pairConflict entity1 entity2) \<subseteq> set (typeConflicts es)"
proof -
  let ?keep = "\<lambda>e. \<not> isExcludedType e"
  let ?N = "filter ?keep es"
  let ?same = "\<lambda>x. bucketOf x = bucketOf entity1"
  have N: "?N = filter ?keep xs @ entity1 # filter ?keep ys @ entity2 # filter ?keep zs"
    using assms by simp
  have grp: "filter ?same ?N =
      filter ?same (filter ?keep xs) @ entity1 # filter ?same (filter ?keep ys) @
      entity2 # filter ?same (filter ?keep zs)"
    using assms(4) by (simp only: N filter_append filter.simps) simp
  have mem: "(bucketOf entity1, filter ?same ?N) \<in> set (groupBy bucketOf ?N)"
    by (rule groupBy_memberI) (simp add: N)
  have pr: "(entity1, entity2) \<in> set (pairs (filter ?same ?N))"
    by (simp only: grp pairs_member)
  have ne: "?N \<noteq> []" by (simp add: N)
  show ?thesis
  proof
    fix g
    assume "g \<in> set (pairConflict entity1 entity2)"
    then show "g \<in> set (typeConflicts es)"
      using mem pr ne by (force simp: typeConflicts_def Let_def)
  qed
qed

lemma faqConflicts_origin:
  assumes "g \<in> set (faqConflicts es)"
  shows "\<exists>q faqs. (q, faqs) \<in> set (groupBy faqQuestion (filter isFaq es)) \<and>
           g \<in> set (faqConflict (q, faqs))"
  using assms by (auto simp: faqConflicts_def Let_def split: if_splits)

lemma pairConflict_shape:
  assumes "g \<in> set (pairConflict entity1 entity2)"
  shows "conflictDetails g = pairDetails entity1 entity2"
    and "pairDetails entity1 entity2 \<noteq> []"
    and "entities g = [toRef entity1, toRef entity2]"
    and "groupId g = pairGroupId entity1 entity2"
    and "groupSeverity g =
           (if list_ex (\<lambda>c. severity c = High) (pairDetails entity1 entity2) then High
            else if list_ex (\<lambda>c. severity c = Medium) (pairDetails entity1 entity2) then Medium
            else Low)"
  using assms by (auto simp: pairConflict_def Let_def split: if_splits)

lemma faqConflict_shape:
  assumes "g \<in> set (faqConflict (q, faqs))"
  shows "groupId g = faqGroupId q"
    and "entities g = map toRef faqs"
    and "groupSeverity g = High"
    and "\<exists>d. conflictDetails g = [d] \<and> conflictType d = ''faq_answer_conflict'' \<and>
             severity d = High \<and> field d = ''answer'' \<and>
             map entityId (detailValues d) = map (\<lambda>e. Some (entityKey e)) faqs"
  using assms by (auto simp: faqConflict_def Let_def toValue_def comp_def split: if_splits)

lemma faqConflict_values:
  assumes "g \<in> set (faqConflict (q, faqs))"
  shows "\<exists>d. conflictDetails g = [d] \<and>
             map entityName (detailValues d) = map (\<lambda>e. Some (displayName e)) faqs"
  using assms by (auto simp: faqConflict_def Let_def toValue_def comp_def split: if_splits)

section \<open>Severity of a group\<close>

lemma maxSeverity_cases:
  "maxSeverity xs =
     (if High \<in> set xs then High else if Medium \<in> set xs then Medium else Low)"
proof (induction xs)
  case Nil
  then show ?case by simp
next
  case (Cons x xs)
  then show ?case by (cases x) auto
qed

lemma rollup_maxSeverity:
  "(if list_ex (\<lambda>c. severity c = High) ds then High
    else if list_ex (\<lambda>c. severity c = Medium) ds then Medium else Low)
   = maxSeverity (map severity ds)"
proof -
  have "list_ex (\<lambda>c. severity c = s) ds \<longleftrightarrow> s \<in> set (map severity ds)" for s
    by (auto simp: list_ex_iff)
  then show ?thesis by (simp only: maxSeverity_cases)
qed

lemma contentDetails_cases:
  "contentDetails entity1 entity2 = [] \<or>
   (\<exists>d. contentDetails entity1 entity2 = [d] \<and> conflictType d \<in> set contentFamily \<and>
        (severity d = High \<or> severity d = Medium))"
  by (auto simp: contentDetails_def contradictedField_def differingField_def contentFamily_def
      Let_def)

lemma phoneDetails_cases:
  "phoneDetails entity1 entity2 = [] \<or>
   (\<exists>d. phoneDetails entity1 entity2 = [d] \<and> conflictType d = ''phone_mismatch'' \<and>
        severity d = Medium)"
  by (simp add: phoneDetails_def Let_def)

lemma urlDetails_cases:
  "urlDetails entity1 entity2 = [] \<or>
   (\<exists>d. urlDetails entity1 entity2 = [d] \<and> conflictType d = ''url_mismatch'' \<and>
        severity d = Medium)"
  by (simp add: urlDetails_def)

lemma entityKey_nonempty: "entityKey e \<noteq> []"
  by (simp add: entityKey_def orStr_def split: option.splits)

lemma detectConflicts_origin:
  assumes "g \<in> set (detectConflicts es)"
  shows "(\<exists>q faqs. g \<in> set (faqConflict (q, faqs))) \<or>
         (\<exists>entity1 entity2. g \<in> set (pairConflict entity1 entity2))"
  using assms faqConflicts_origin [of g es] typeConflicts_origin [of g es]
  by (auto simp: detectConflicts_def)

text \<open>
  C5. Every group returned by \<open>detectConflicts\<close> has at least one detail, and its
  severity is the greatest severity among its details under high > medium > low; a pair
  that accumulates no detail produces no group.
\<close>

theorem group_severity_is_maximum:
  "(\<forall>g \<in> set (detectConflicts es).
      conflictDetails g \<noteq> [] \<and>
      groupSeverity g = maxSeverity (map severity (conflictDetails g)))
   \<and> (pairDetails entity1 entity2 = [] \<longrightarrow> pairConflict entity1 entity2 = [])"
proof (intro conjI ballI impI)
  fix g
  assume "g \<in> set (detectConflicts es)"
  then consider (faq) q faqs where "g \<in> set (faqConflict (q, faqs))"
    | (pair) e1 e2 where "g \<in> set (pairConflict e1 e2)"
    using detectConflicts_origin by blast
  then have "conflictDetails g \<noteq> [] \<and>
      groupSeverity g = maxSeverity (map severity (conflictDetails g))"
  proof cases
    case faq
    then show ?thesis
      using faqConflict_shape(3,4) [OF faq] by auto
  next
    case pair
    then show ?thesis
      using pairConflict_shape(1,2,5) [OF pair] by (simp only: rollup_maxSeverity) simp
  qed
  then show "conflictDetails g \<noteq> []"
    and "groupSeverity g = maxSeverity (map severity (conflictDetails g))"
    by simp_all
next
  assume "pairDetails entity1 entity2 = []"
  then show "pairConflict entity1 entity2 = []"
    by (simp add: pairConflict_def)
qed

text \<open>
  C10. A group of the type-based pairwise path has exactly two entities and at most
  three details: each detail is of the content family, a \<open>phone_mismatch\<close> or a
  \<open>url_mismatch\<close>, and there is at most one of each.
\<close>

theorem pairwise_group_shape:
  "\<forall>g \<in> set (typeConflicts es).
     length (entities g) = 2 \<and>
     length (conflictDetails g) \<le> 3 \<and>
     (\<forall>d \<in> set (conflictDetails g).
        conflictType d \<in> set contentFamily \<or> conflictType d = ''phone_mismatch'' \<or>
        conflictType d = ''url_mismatch'') \<and>
     length (filter (\<lambda>d. conflictType d \<in> set contentFamily) (conflictDetails g)) \<le> 1 \<and>
     length (filter (\<lambda>d. conflictType d = ''phone_mismatch'') (conflictDetails g)) \<le> 1 \<and>
     length (filter (\<lambda>d. conflictType d = ''url_mismatch'') (conflictDetails g)) \<le> 1"
proof
  fix g
  assume "g \<in> set (typeConflicts es)"
  then obtain e1 e2 where g: "g \<in> set (pairConflict e1 e2)"
    using typeConflicts_origin by blast
  have ds: "conflictDetails g = contentDetails e1 e2 @ phoneDetails e1 e2 @ urlDetails e1 e2"
    using pairConflict_shape(1) [OF g] by (simp add: pairDetails_def)
  have ents: "length (entities g) = 2"
    using pairConflict_shape(3) [OF g] by simp
  have fam: "''phone_mismatch'' \<notin> set contentFamily" "''url_mismatch'' \<notin> set contentFamily"
    by (simp_all add: contentFamily_def)
  show "length (entities g) = 2 \<and>
     length (conflictDetails g) \<le> 3 \<and>
     (\<forall>d \<in> set (conflictDetails g).
        conflictType d \<in> set contentFamily \<or> conflictType d = ''phone_mismatch'' \<or>
        conflictType d = ''url_mismatch'') \<and>
     length (filter (\<lambda>d. conflictType d \<in> set contentFamily) (conflictDetails g)) \<le> 1 \<and>
     length (filter (\<lambda>d. conflictType d = ''phone_mismatch'') (conflictDetails g)) \<le> 1 \<and>
     length (filter (\<lambda>d. conflictType d = ''url_mismatch'') (conflictDetails g)) \<le> 1"
    using contentDetails_cases [of e1 e2] phoneDetails_cases [of e1 e2]
      urlDetails_cases [of e1 e2] ents fam
    unfolding ds by (elim disjE exE conjE) (simp_all, auto)
qed

section \<open>Summary\<close>

lemma severity_partition:
  "length (filter (\<lambda>c. groupSeverity c = High) cs) +
   length (filter (\<lambda>c. groupSeverity c = Medium) cs) +
   length (filter (\<lambda>c. groupSeverity c = Low) cs) = length cs"
proof (induction cs)
  case Nil
  then show ?case by simp
next
  case (Cons c cs)
  then show ?case by (cases "groupSeverity c") simp_all
qed

lemma in_concat_map: "x \<in> set (concat (map f xs)) \<longleftrightarrow> (\<exists>y \<in> set xs. x \<in> set (f y))"
  by auto

lemma counted_id:
  "i \<in> set (if truthy (ref_id e) then [stringOr (ref_id e)] else []) \<longleftrightarrow>
   i \<noteq> [] \<and> ref_id e = Some i"
  by (cases "ref_id e") (auto simp: truthy_def stringOr_def)

lemma appearing_id:
  "i \<in> set (case ref_id e of None \<Rightarrow> [] | Some j \<Rightarrow> [j]) \<longleftrightarrow> ref_id e = Some i"
  by (cases "ref_id e") auto

lemma set_affectedIds:
  "set (affectedIds cs) =
     {i. i \<noteq> [] \<and> (\<exists>c \<in> set cs. \<exists>e \<in> set (entities c). ref_id e = Some i)}"
proof (rule set_eqI)
  fix i
  have "i \<in> set (affectedIds cs) \<longleftrightarrow>
      (\<exists>c \<in> set cs. \<exists>e \<in> set (entities c).
         i \<in> set (if truthy (ref_id e) then [stringOr (ref_id e)] else []))"
    unfolding affectedIds_def by (simp only: set_remdups in_concat_map)
  then show "i \<in> set (affectedIds cs) \<longleftrightarrow>
      i \<in> {i. i \<noteq> [] \<and> (\<exists>c \<in> set cs. \<exists>e \<in> set (entities c). ref_id e = Some i)}"
    by (simp only: counted_id) blast
qed

lemma set_identifiersAppearing:
  "set (identifiersAppearing cs) =
     {i. \<exists>c \<in> set cs. \<exists>e \<in> set (entities c). ref_id e = Some i}"
proof (rule set_eqI)
  fix i
  have "i \<in> set (identifiersAppearing cs) \<longleftrightarrow>
      (\<exists>c \<in> set cs. \<exists>e \<in> set (entities c).
         i \<in> set (case ref_id e of None \<Rightarrow> [] | Some j \<Rightarrow> [j]))"
    unfolding identifiersAppearing_def by (simp only: set_remdups in_concat_map)
  then show "i \<in> set (identifiersAppearing cs) \<longleftrightarrow>
      i \<in> {i. \<exists>c \<in> set cs. \<exists>e \<in> set (entities c). ref_id e = Some i}"
    by (simp only: appearing_id) blast
qed

lemma detectConflicts_ids_nonempty:
  assumes "g \<in> set (detectConflicts es)" "e \<in> set (entities g)" "ref_id e = Some i"
  shows "i \<noteq> []"
proof -
  have "\<exists>x. e = toRef x"
    using detectConflicts_origin [OF assms(1)] assms(2)
      faqConflict_shape(2) pairConflict_shape(3)
    by (elim disjE exE) (fastforce)+
  then show ?thesis
    using assms(3) by (auto simp: toRef_def entityKey_nonempty)
qed

text \<open>
  C6. \<open>totalConflicts\<close> is the length of the list and the three severity counts add
  up to it. \<open>affectedEntities\<close> is the number of distinct identifiers that appear in
  the entities of the groups: an identifier is a non-empty string, as the identity key of
  a record always is, so this holds of every list of groups none of whose entities carries
  the empty string for an identifier, and of every list that \<open>detectConflicts\<close>
  returns.
\<close>

theorem summary_consistency:
  "totalConflicts (getConflictSummary cs) = length cs
   \<and> highSeverity (getConflictSummary cs) + mediumSeverity (getConflictSummary cs) +
       lowSeverity (getConflictSummary cs) = totalConflicts (getConflictSummary cs)
   \<and> affectedEntities (getConflictSummary cs) =
       card {i. i \<noteq> [] \<and> (\<exists>c \<in> set cs. \<exists>e \<in> set (entities c). ref_id e = Some i)}
   \<and> ((\<forall>c \<in> set cs. \<forall>e \<in> set (entities c). ref_id e \<noteq> Some []) \<longrightarrow>
        affectedEntities (getConflictSummary cs) =
          card {i. \<exists>c \<in> set cs. \<exists>e \<in> set (entities c). ref_id e = Some i})
   \<and> affectedEntities (getConflictSummary (detectConflicts es)) =
       card {i. \<exists>c \<in> set (detectConflicts es). \<exists>e \<in> set (entities c). ref_id e = Some i}"
proof -
  have a: "affectedEntities (getConflictSummary xs) =
      card {i. i \<noteq> [] \<and> (\<exists>c \<in> set xs. \<exists>e \<in> set (entities c). ref_id e = Some i)}" for xs
  proof -
    have "length (affectedIds xs) = card (set (affectedIds xs))"
      by (simp add: affectedIds_def length_remdups_card_conv)
    then show ?thesis
      by (simp add: getConflictSummary_def set_affectedIds)
  qed
  have b: "{i. i \<noteq> [] \<and> (\<exists>c \<in> set xs. \<exists>e \<in> set (entities c). ref_id e = Some i)}
      = {i. \<exists>c \<in> set xs. \<exists>e \<in> set (entities c). ref_id e = Some i}"
    if "\<forall>c \<in> set xs. \<forall>e \<in> set (entities c). ref_id e \<noteq> Some []" for xs
    using that by blast
  have c: "\<forall>c \<in> set (detectConflicts es). \<forall>e \<in> set (entities c). ref_id e \<noteq> Some []"
    using detectConflicts_ids_nonempty by blast
  have counts: "totalConflicts (getConflictSummary cs) = length cs"
    "highSeverity (getConflictSummary cs) + mediumSeverity (getConflictSummary cs) +
       lowSeverity (getConflictSummary cs) = totalConflicts (getConflictSummary cs)"
    using severity_partition [of cs] by (simp_all add: getConflictSummary_def)
  show ?thesis
    using counts a [of cs] a [of "detectConflicts es"] b [of cs] b [OF c] by simp
qed

section \<open>The examples, evaluated\<close>

lemma faq_example_groups:
  "map (\<lambda>g. (groupId g, groupSeverity g, map ref_id (entities g),
             map (\<lambda>d. (conflictType d, severity d)) (conflictDetails g)))
       (detectConflicts [faqA, faqB])
   = [(''faq-conflict-what are your hours'', High, [Some ''faq-1'', Some ''faq-2''],
       [(''faq_answer_conflict'', High)])]"
  by code_simp

lemma shared_contact_example_groups:
  "map (\<lambda>g. (groupId g, groupSeverity g, map ref_id (entities g),
             map (\<lambda>d. (conflictType d, severity d)) (conflictDetails g)))
       (detectConflicts [pizzaA, deliB])
   = [(''conflict-Luigi Pizza-Deli Corner'', Medium, [Some ''r-3'', Some ''r-4''],
       [(''phone_mismatch'', Medium), (''url_mismatch'', Medium)])]"
  by code_simp

lemma shared_contact_example_faq: "faqConflicts [pizzaA, deliB] = []"
  by code_simp

lemma twins_no_details: "pairDetails twinA twinB = []"
  by code_simp

lemma length_identifiersAppearing:
  "length (identifiersAppearing cs) =
     card {i. \<exists>c \<in> set cs. \<exists>e \<in> set (entities c). ref_id e = Some i}"
proof -
  have "length (identifiersAppearing cs) = card (set (identifiersAppearing cs))"
    by (simp add: identifiersAppearing_def length_remdups_card_conv)
  then show ?thesis by (simp only: set_identifiersAppearing)
qed

theorem group_severity_is_maximum_witness:
  "detectConflicts [faqA, faqB] \<noteq> []
   \<and> conflictDetails (hd (detectConflicts [faqA, faqB])) \<noteq> []
   \<and> groupSeverity (hd (detectConflicts [faqA, faqB])) =
       maxSeverity (map severity (conflictDetails (hd (detectConflicts [faqA, faqB]))))
   \<and> pairDetails twinA twinB = []
   \<and> pairConflict twinA twinB = []"
proof -
  have ne: "detectConflicts [faqA, faqB] \<noteq> []"
    using faq_example_groups by auto
  then have mem: "hd (detectConflicts [faqA, faqB]) \<in> set (detectConflicts [faqA, faqB])"
    by simp
  show ?thesis
    using group_severity_is_maximum [of "[faqA, faqB]" twinA twinB] ne mem twins_no_details
    by blast
qed

theorem pairwise_group_shape_witness:
  "typeConflicts [pizzaA, deliB] \<noteq> []
   \<and> length (entities (hd (typeConflicts [pizzaA, deliB]))) = 2
   \<and> length (conflictDetails (hd (typeConflicts [pizzaA, deliB]))) \<le> 3
   \<and> length (filter (\<lambda>d. conflictType d = ''phone_mismatch'')
               (conflictDetails (hd (typeConflicts [pizzaA, deliB])))) \<le> 1"
proof -
  have "detectConflicts [pizzaA, deliB] \<noteq> []"
    using shared_contact_example_groups by auto
  then have ne: "typeConflicts [pizzaA, deliB] \<noteq> []"
    by (simp add: detectConflicts_def shared_contact_example_faq)
  then have mem: "hd (typeConflicts [pizzaA, deliB]) \<in> set (typeConflicts [pizzaA, deliB])"
    by simp
  show ?thesis
    using pairwise_group_shape [of "[pizzaA, deliB]"] ne mem by blast
qed

theorem summary_consistency_witness:
  "totalConflicts (getConflictSummary (detectConflicts [pizzaA, deliB])) = 1
   \<and> highSeverity (getConflictSummary (detectConflicts [pizzaA, deliB])) = 0
   \<and> mediumSeverity (getConflictSummary (detectConflicts [pizzaA, deliB])) = 1
   \<and> lowSeverity (getConflictSummary (detectConflicts [pizzaA, deliB])) = 0
   \<and> length (detectConflicts [pizzaA, deliB]) = 1
   \<and> affectedEntities (getConflictSummary (detectConflicts [pizzaA, deliB])) = 2
   \<and> identifiersAppearing (detectConflicts [pizzaA, deliB]) = [''r-3'', ''r-4'']
   \<and> card {i. \<exists>c \<in> set (detectConflicts [pizzaA, deliB]).
                 \<exists>e \<in> set (entities c). ref_id e = Some i} = 2"
proof -
  have i: "identifiersAppearing (detectConflicts [pizzaA, deliB]) = [''r-3'', ''r-4'']"
    by code_simp
  have a: "affectedEntities (getConflictSummary (detectConflicts [pizzaA, deliB])) = 2"
    and b: "mediumSeverity (getConflictSummary (detectConflicts [pizzaA, deliB])) = 1"
    and c: "highSeverity (getConflictSummary (detectConflicts [pizzaA, deliB])) = 0"
    and d: "lowSeverity (getConflictSummary (detectConflicts [pizzaA, deliB])) = 0"
    by code_simp+
  show ?thesis
    using summary_consistency [of "detectConflicts [pizzaA, deliB]" "[pizzaA, deliB]"] a b c d i
    by simp
qed

section \<open>The FAQ rule\<close>

lemma faqGroupId_inject [simp]: "faqGroupId a = faqGroupId b \<longleftrightarrow> a = b"
  by (simp add: faqGroupId_def)

lemma pairGroupId_not_faq [simp]: "pairGroupId entity1 entity2 \<noteq> faqGroupId q"
  by (simp add: faqGroupId_def pairGroupId_def)

lemma faqConflict_filter:
  "filter (\<lambda>g. groupId g = faqGroupId q) (faqConflict (k, vs)) =
     (if k = q then faqConflict (k, vs) else [])"
  by (simp add: faqConflict_def Let_def)

lemma faqConflicts_filter:
  assumes "distinct (map fst G)" "(q, faqs) \<in> set G"
  shows "filter (\<lambda>g. groupId g = faqGroupId q) (concat (map faqConflict G)) =
         faqConflict (q, faqs)"
  using assms
proof (induction G)
  case Nil
  then show ?case by simp
next
  case (Cons kv G)
  obtain k vs where kv: "kv = (k, vs)" by (cases kv)
  show ?case
  proof (cases "k = q")
    case True
    then have same: "vs = faqs"
      using Cons.prems kv by (auto simp: image_iff)
    have "q \<notin> fst ` set G"
      using Cons.prems(1) kv True by simp
    then have "filter (\<lambda>g. groupId g = faqGroupId q) (concat (map faqConflict G)) = []"
      by (induction G) (auto simp: faqConflict_filter)
    then show ?thesis
      using True same kv by (simp add: faqConflict_filter)
  next
    case False
    then have "(q, faqs) \<in> set G" "distinct (map fst G)"
      using Cons.prems kv by auto
    then show ?thesis
      using Cons.IH False kv by (simp add: faqConflict_filter)
  qed
qed

lemma typeConflicts_filter:
  "filter (\<lambda>g. groupId g = faqGroupId q) (typeConflicts es) = []"
proof -
  have "groupId g \<noteq> faqGroupId q" if mem: "g \<in> set (typeConflicts es)" for g
  proof -
    obtain e1 e2 where "g \<in> set (pairConflict e1 e2)"
      using typeConflicts_origin [OF mem] by blast
    then show ?thesis
      using pairConflict_shape(4) by simp
  qed
  then show ?thesis by (simp add: filter_empty_conv)
qed

lemma two_members_length:
  assumes "a \<in> set xs" "b \<in> set xs" "a \<noteq> b"
  shows "1 < length xs"
proof -
  have "card {a, b} \<le> card (set xs)"
    using assms by (intro card_mono) auto
  then have "2 \<le> card (set xs)"
    using assms(3) by simp
  then show ?thesis
    using card_length [of xs] by linarith
qed

text \<open>
  C1. When a list holds two records of an FAQ category whose names agree after
  \<open>normalizeString\<close> and whose answers (\<open>answer\<close>, else \<open>description\<close>) differ
  after it, \<open>detectConflicts\<close> returns exactly one group for that question; it is of
  high severity, its one detail is a high \<open>faq_answer_conflict\<close>, and both records
  are among its entities: each has an entry that carries the record's identifier (that of
  \<open>meta\<close> when it is a non-empty string, else the record's own, else "unknown"), its
  name (or "Unknown Entity") and its category, and an entry with that identifier and name
  among the values of the detail.
\<close>

theorem faq_answer_conflict_rule:
  assumes "faq1 \<in> set es" "faq2 \<in> set es" "isFaq faq1" "isFaq faq2"
    and "faqQuestion faq1 = faqQuestion faq2"
    and "normalizeString (faqAnswer faq1) \<noteq> normalizeString (faqAnswer faq2)"
  shows "\<exists>g d. filter (\<lambda>g. groupId g = faqGroupId (faqQuestion faq1))
                  (detectConflicts es) = [g]
           \<and> groupSeverity g = High
           \<and> conflictDetails g = [d]
           \<and> conflictType d = ''faq_answer_conflict'' \<and> severity d = High
           \<and> (\<forall>faq \<in> {faq1, faq2}. \<exists>r \<in> set (entities g). \<exists>v \<in> set (detailValues d).
                 ref_id r =
                   Some (case (case meta faq of None \<Rightarrow> None | Some m \<Rightarrow> meta_id m) of
                           Some (c # cs) \<Rightarrow> c # cs
                         | _ \<Rightarrow> (case id' faq of Some (c # cs) \<Rightarrow> c # cs
                                 | _ \<Rightarrow> ''unknown''))
                 \<and> ref_name r =
                     Some (case name faq of Some (c # cs) \<Rightarrow> c # cs | _ \<Rightarrow> ''Unknown Entity'')
                 \<and> ref_type r = (case meta faq of None \<Rightarrow> None | Some m \<Rightarrow> entityType m)
                 \<and> entityId v = ref_id r \<and> entityName v = ref_name r)"
proof -
  let ?q = "faqQuestion faq1"
  let ?F = "filter isFaq es"
  let ?faqs = "filter (\<lambda>x. faqQuestion x = ?q) ?F"
  let ?P = "\<lambda>g. groupId g = faqGroupId ?q"
  have in1: "faq1 \<in> set ?faqs" and in2: "faq2 \<in> set ?faqs"
    using assms by simp_all
  have F: "?F \<noteq> []"
    using assms(1,3) by (auto simp: filter_empty_conv)
  have grp: "(?q, ?faqs) \<in> set (groupBy faqQuestion ?F)"
    by (rule groupBy_memberI) (use assms in simp)
  have many: "1 < length ?faqs"
    using two_members_length [OF in1 in2] assms(6) by auto
  let ?answers = "map (\<lambda>faq. normalizeString (faqAnswer faq)) ?faqs"
  have "1 < length (remdups ?answers)"
  proof (rule two_members_length)
    show "normalizeString (faqAnswer faq1) \<in> set (remdups ?answers)"
      using in1 by (simp only: set_remdups set_map) (rule imageI)
    show "normalizeString (faqAnswer faq2) \<in> set (remdups ?answers)"
      using in2 by (simp only: set_remdups set_map) (rule imageI)
    show "normalizeString (faqAnswer faq1) \<noteq> normalizeString (faqAnswer faq2)"
      by (rule assms(6))
  qed
  then have uniq: "1 < length (remdups (map snd
      (map (\<lambda>faq. (faq, normalizeString (faqAnswer faq))) ?faqs)))"
    by (simp add: comp_def)
  obtain g where one: "faqConflict (?q, ?faqs) = [g]"
    using many uniq by (simp add: faqConflict_def Let_def)
  then have g: "g \<in> set (faqConflict (?q, ?faqs))" by simp
  have "filter ?P (faqConflicts es) = [g]"
    using faqConflicts_filter [OF groupBy_distinct grp] F one
    by (simp add: faqConflicts_def Let_def)
  then have only: "filter ?P (detectConflicts es) = [g]"
    by (simp add: detectConflicts_def typeConflicts_filter)
  obtain d where d: "conflictDetails g = [d]" "conflictType d = ''faq_answer_conflict''"
    "severity d = High"
    and vals: "map entityId (detailValues d) = map (\<lambda>e. Some (entityKey e)) ?faqs"
      "map entityName (detailValues d) = map (\<lambda>e. Some (displayName e)) ?faqs"
    using faqConflict_shape(4) [OF g] faqConflict_values [OF g] by auto
  have ents: "entities g = map toRef ?faqs"
    by (rule faqConflict_shape(2) [OF g])
  have listed: "\<exists>r \<in> set (entities g). \<exists>v \<in> set (detailValues d).
      ref_id r =
        Some (case (case meta faq of None \<Rightarrow> None | Some m \<Rightarrow> meta_id m) of
                Some (c # cs) \<Rightarrow> c # cs
              | _ \<Rightarrow> (case id' faq of Some (c # cs) \<Rightarrow> c # cs | _ \<Rightarrow> ''unknown''))
      \<and> ref_name r =
          Some (case name faq of Some (c # cs) \<Rightarrow> c # cs | _ \<Rightarrow> ''Unknown Entity'')
      \<and> ref_type r = (case meta faq of None \<Rightarrow> None | Some m \<Rightarrow> entityType m)
      \<and> entityId v = ref_id r \<and> entityName v = ref_name r"
    if mem: "faq \<in> set ?faqs" for faq
  proof -
    obtain n where n: "n < length ?faqs" "?faqs ! n = faq"
      using mem by (metis in_set_conv_nth)
    have len: "length (detailValues d) = length ?faqs"
      using vals(1) by (metis length_map)
    have r: "toRef faq \<in> set (entities g)"
      using mem by (simp only: ents set_map) (rule imageI)
    have v: "detailValues d ! n \<in> set (detailValues d)"
      using n(1) len by simp
    have vi: "entityId (detailValues d ! n) = Some (entityKey faq)"
      using vals(1) n len by (metis nth_map)
    have vn: "entityName (detailValues d ! n) = Some (displayName faq)"
      using vals(2) n len by (metis nth_map)
    have key: "entityKey faq =
        (case (case meta faq of None \<Rightarrow> None | Some m \<Rightarrow> meta_id m) of
           Some (c # cs) \<Rightarrow> c # cs
         | _ \<Rightarrow> (case id' faq of Some (c # cs) \<Rightarrow> c # cs | _ \<Rightarrow> ''unknown''))"
      by (simp add: entityKey_def metaId_def orStr_def split: option.splits list.splits)
    have nm: "displayName faq =
        (case name faq of Some (c # cs) \<Rightarrow> c # cs | _ \<Rightarrow> ''Unknown Entity'')"
      by (simp add: displayName_def orStr_def split: option.splits list.splits)
    have ty: "ref_type (toRef faq) = (case meta faq of None \<Rightarrow> None | Some m \<Rightarrow> entityType m)"
      by (simp add: toRef_def metaEntityType_def)
    have ri: "ref_id (toRef faq) = Some (entityKey faq)"
      and rn: "ref_name (toRef faq) = Some (displayName faq)"
      by (simp_all add: toRef_def)
    show ?thesis
      by (rule bexI [OF _ r], rule bexI [OF _ v])
        (simp only: ri rn vi vn ty key [symmetric] nm [symmetric] simp_thms)
  qed
  have both: "\<forall>faq \<in> {faq1, faq2}. faq \<in> set ?faqs"
    using in1 in2 by blast
  show ?thesis
    using only faqConflict_shape(3) [OF g] d listed both by blast
qed

theorem faq_answer_conflict_rule_witness:
  "isFaq faqA \<and> isFaq faqB
   \<and> faqQuestion faqA = ''what are your hours'' \<and> faqQuestion faqB = ''what are your hours''
   \<and> normalizeString (faqAnswer faqA) \<noteq> normalizeString (faqAnswer faqB)
   \<and> (\<exists>g d. filter (\<lambda>g. groupId g = faqGroupId ''what are your hours'')
                  (detectConflicts [faqA, faqB]) = [g]
           \<and> groupSeverity g = High
           \<and> conflictDetails g = [d]
           \<and> conflictType d = ''faq_answer_conflict'' \<and> severity d = High
           \<and> (\<exists>r \<in> set (entities g). \<exists>v \<in> set (detailValues d).
                 ref_id r = Some ''faq-1'' \<and> ref_name r = Some ''What are your hours?''
                 \<and> ref_type r = Some ''faq''
                 \<and> entityId v = Some ''faq-1'' \<and> entityName v = Some ''What are your hours?'')
           \<and> (\<exists>r \<in> set (entities g). \<exists>v \<in> set (detailValues d).
                 ref_id r = Some ''faq-2'' \<and> ref_name r = Some ''What are your hours?''
                 \<and> ref_type r = Some ''faq''
                 \<and> entityId v = Some ''faq-2'' \<and> entityName v = Some ''What are your hours?''))"
proof -
  have a: "isFaq faqA" "isFaq faqB"
    by code_simp+
  have q: "faqQuestion faqA = ''what are your hours''"
    "faqQuestion faqB = ''what are your hours''"
    by code_simp+
  have n: "normalizeString (faqAnswer faqA) \<noteq> normalizeString (faqAnswer faqB)"
    by code_simp
  have f: "meta faqA = Some \<lparr>meta_id = None, entityType = Some ''faq''\<rparr>"
    "meta faqB = Some \<lparr>meta_id = None, entityType = Some ''faq''\<rparr>"
    "id' faqA = Some ''faq-1''" "id' faqB = Some ''faq-2''"
    "name faqA = Some ''What are your hours?''" "name faqB = Some ''What are your hours?''"
    by (simp_all add: faqA_def faqB_def typed_def record0_def)
  show ?thesis
    using faq_answer_conflict_rule [of faqA "[faqA, faqB]" faqB] a q n
    by (simp add: f) metis
qed

section \<open>Pairs of records of one category\<close>

lemma excluded_not_faq: "\<not> isExcludedType e \<Longrightarrow> \<not> isFaq e"
  by (auto simp: isExcludedType_def isFaq_def)

lemma detectConflicts_two:
  assumes "\<not> isExcludedType entity1" "\<not> isExcludedType entity2"
    "bucketOf entity1 = bucketOf entity2"
  shows "detectConflicts [entity1, entity2] = pairConflict entity1 entity2"
proof -
  have "faqConflicts [entity1, entity2] = []"
    using assms excluded_not_faq by (simp add: faqConflicts_def)
  moreover have "typeConflicts [entity1, entity2] = pairConflict entity1 entity2"
    using assms by (simp add: typeConflicts_def groupBy_def)
  ultimately show ?thesis by (simp add: detectConflicts_def)
qed

lemma detectConflicts_pair:
  assumes "es = xs @ entity1 # ys @ entity2 # zs"
    "\<not> isExcludedType entity1" "\<not> isExcludedType entity2"
    "bucketOf entity1 = bucketOf entity2"
    "d \<in> set (pairDetails entity1 entity2)"
  shows "\<exists>g \<in> set (detectConflicts es).
           entities g = [toRef entity1, toRef entity2] \<and> d \<in> set (conflictDetails g)"
proof -
  have ne: "pairDetails entity1 entity2 \<noteq> []"
    using assms(5) by auto
  then obtain g where g: "pairConflict entity1 entity2 = [g]"
    by (simp add: pairConflict_def Let_def)
  then have mem: "g \<in> set (pairConflict entity1 entity2)" by simp
  have "g \<in> set (typeConflicts es)"
    using typeConflicts_pair [OF assms(1-4)] mem by blast
  then have "g \<in> set (detectConflicts es)"
    by (simp add: detectConflicts_def)
  then show ?thesis
    using pairConflict_shape(1,3) [OF mem] assms(5) by auto
qed

text \<open>
  C4, as the code has it. Two records of one non-excluded category with different names,
  one before the other in the input: when both phone fields are non-empty and give the
  same digits, the group of the pair holds a medium \<open>phone_mismatch\<close> detail; when both
  website fields are non-empty and equal, it holds a medium \<open>url_mismatch\<close> detail.
  The similarity of the names plays no part.
\<close>

theorem shared_contact_conflicts:
  assumes "es = xs @ entity1 # ys @ entity2 # zs"
    and "\<not> isExcludedType entity1" "\<not> isExcludedType entity2"
    and "bucketOf entity1 = bucketOf entity2"
    and "name entity1 \<noteq> name entity2"
  shows "(truthy (mainPhone entity1) \<and> truthy (mainPhone entity2) \<and>
          normalizePhone (stringOr (mainPhone entity1)) =
            normalizePhone (stringOr (mainPhone entity2)) \<longrightarrow>
          (\<exists>g \<in> set (detectConflicts es). \<exists>d \<in> set (conflictDetails g).
             entities g = [toRef entity1, toRef entity2] \<and>
             conflictType d = ''phone_mismatch'' \<and> severity d = Medium \<and>
             field d = ''mainPhone''))
       \<and> (truthy (websiteUrl entity1) \<and> truthy (websiteUrl entity2) \<and>
          websiteUrl entity1 = websiteUrl entity2 \<longrightarrow>
          (\<exists>g \<in> set (detectConflicts es). \<exists>d \<in> set (conflictDetails g).
             entities g = [toRef entity1, toRef entity2] \<and>
             conflictType d = ''url_mismatch'' \<and> severity d = Medium \<and>
             field d = ''websiteUrl''))"
proof (intro conjI impI)
  assume p: "truthy (mainPhone entity1) \<and> truthy (mainPhone entity2) \<and>
      normalizePhone (stringOr (mainPhone entity1)) =
        normalizePhone (stringOr (mainPhone entity2))"
  then obtain d where d: "phoneDetails entity1 entity2 = [d]"
    "conflictType d = ''phone_mismatch''" "severity d = Medium" "field d = ''mainPhone''"
    using assms(5) by (simp add: phoneDetails_def Let_def)
  have "d \<in> set (pairDetails entity1 entity2)"
    using d(1) by (simp add: pairDetails_def)
  then show "\<exists>g \<in> set (detectConflicts es). \<exists>d \<in> set (conflictDetails g).
             entities g = [toRef entity1, toRef entity2] \<and>
             conflictType d = ''phone_mismatch'' \<and> severity d = Medium \<and>
             field d = ''mainPhone''"
    using detectConflicts_pair [OF assms(1-4)] d(2-4) by blast
next
  assume u: "truthy (websiteUrl entity1) \<and> truthy (websiteUrl entity2) \<and>
      websiteUrl entity1 = websiteUrl entity2"
  then obtain d where d: "urlDetails entity1 entity2 = [d]"
    "conflictType d = ''url_mismatch''" "severity d = Medium" "field d = ''websiteUrl''"
    using assms(5) by (simp add: urlDetails_def)
  have "d \<in> set (pairDetails entity1 entity2)"
    using d(1) by (simp add: pairDetails_def)
  then show "\<exists>g \<in> set (detectConflicts es). \<exists>d \<in> set (conflictDetails g).
             entities g = [toRef entity1, toRef entity2] \<and>
             conflictType d = ''url_mismatch'' \<and> severity d = Medium \<and>
             field d = ''websiteUrl''"
    using detectConflicts_pair [OF assms(1-4)] d(2-4) by blast
qed

lemma shared_contact_example_hyps:
  "\<not> isExcludedType pizzaA" "\<not> isExcludedType deliB" "bucketOf pizzaA = bucketOf deliB"
  "name pizzaA \<noteq> name deliB"
  "truthy (mainPhone pizzaA)" "truthy (mainPhone deliB)"
  "normalizePhone (stringOr (mainPhone pizzaA)) = normalizePhone (stringOr (mainPhone deliB))"
  "truthy (websiteUrl pizzaA)" "truthy (websiteUrl deliB)"
  "websiteUrl pizzaA = websiteUrl deliB"
  by code_simp+

theorem shared_contact_conflicts_witness:
  "nameSimilarityOf pizzaA deliB = 1 / 11
   \<and> (\<exists>g \<in> set (detectConflicts [pizzaA, deliB]). \<exists>d \<in> set (conflictDetails g).
         entities g = [toRef pizzaA, toRef deliB] \<and>
         conflictType d = ''phone_mismatch'' \<and> severity d = Medium \<and> field d = ''mainPhone'')
   \<and> (\<exists>g \<in> set (detectConflicts [pizzaA, deliB]). \<exists>d \<in> set (conflictDetails g).
         entities g = [toRef pizzaA, toRef deliB] \<and>
         conflictType d = ''url_mismatch'' \<and> severity d = Medium \<and> field d = ''websiteUrl'')"
proof -
  have s: "nameSimilarityOf pizzaA deliB = 1 / 11"
    by code_simp
  show ?thesis
    using shared_contact_conflicts [of "[pizzaA, deliB]" "[]" pizzaA "[]" deliB "[]"]
      shared_contact_example_hyps s
    by simp
qed

text \<open>
  C4 as stated fails when the phone and website fields are present and empty: the digit
  strings and the addresses are identical, the names differ, and no detail is produced.
\<close>

theorem shared_contact_blank_fields:
  "bucketOf blankA = bucketOf blankB
   \<and> \<not> isExcludedType blankA \<and> \<not> isExcludedType blankB
   \<and> displayName blankA \<noteq> displayName blankB
   \<and> mainPhone blankA = Some [] \<and> mainPhone blankB = Some []
   \<and> normalizePhone (stringOr (mainPhone blankA)) = normalizePhone (stringOr (mainPhone blankB))
   \<and> websiteUrl blankA = websiteUrl blankB
   \<and> pairDetails blankA blankB = []
   \<and> detectConflicts [blankA, blankB] = []"
  by code_simp

section \<open>Agreement and contradiction of contents\<close>

lemma equal_texts_no_contradiction:
  "normalizeString text1 = normalizeString text2 \<Longrightarrow>
   \<not> detectSemanticContradictions text1 text2"
  by (simp add: detectSemanticContradictions_def)

lemma agreement_no_contentDetails:
  "normalizeString (selectContent entity1) = normalizeString (selectContent entity2) \<Longrightarrow>
   contentDetails entity1 entity2 = []"
  by (simp add: contentDetails_def Let_def)

lemma same_name_no_contact_details:
  "name entity1 = name entity2 \<Longrightarrow>
   phoneDetails entity1 entity2 = [] \<and> urlDetails entity1 entity2 = []"
  by (simp add: phoneDetails_def urlDetails_def Let_def)

lemma content_detail_origin:
  assumes "g \<in> set (detectConflicts es)" "d \<in> set (conflictDetails g)"
    "conflictType d \<in> set contentFamily"
  shows "\<exists>a b. a \<in> set es \<and> b \<in> set es \<and> entities g = [toRef a, toRef b] \<and>
           normalizeString (selectContent a) \<noteq> normalizeString (selectContent b)"
proof -
  consider (faq) "g \<in> set (faqConflicts es)" | (pair) "g \<in> set (typeConflicts es)"
    using assms(1) by (auto simp: detectConflicts_def)
  then show ?thesis
  proof cases
    case faq
    then obtain q faqs where "g \<in> set (faqConflict (q, faqs))"
      using faqConflicts_origin by blast
    then have "conflictType d = ''faq_answer_conflict''"
      using faqConflict_shape(4) assms(2) by fastforce
    then show ?thesis
      using assms(3) by (simp add: contentFamily_def)
  next
    case pair
    then obtain a b where ab: "a \<in> set es" "b \<in> set es" "g \<in> set (pairConflict a b)"
      using typeConflicts_origin by blast
    have "d \<in> set (contentDetails a b) \<or> d \<in> set (phoneDetails a b) \<or> d \<in> set (urlDetails a b)"
      using assms(2) pairConflict_shape(1) [OF ab(3)] by (auto simp: pairDetails_def)
    moreover have "d \<notin> set (phoneDetails a b)"
      using phoneDetails_cases [of a b] assms(3) by (auto simp: contentFamily_def)
    moreover have "d \<notin> set (urlDetails a b)"
      using urlDetails_cases [of a b] assms(3) by (auto simp: contentFamily_def)
    ultimately have "contentDetails a b \<noteq> []" by auto
    then have "normalizeString (selectContent a) \<noteq> normalizeString (selectContent b)"
      using agreement_no_contentDetails by blast
    then show ?thesis
      using ab pairConflict_shape(3) [OF ab(3)] by blast
  qed
qed

lemma same_key_same_record:
  assumes "distinct (map entityKey es)" "a \<in> set es" "b \<in> set es" "entityKey a = entityKey b"
  shows "a = b"
proof -
  have "inj_on entityKey (set es)"
    using assms(1) by (simp add: distinct_map)
  then show ?thesis
    using assms(2-4) by (auto dest: inj_onD)
qed

lemma pair_group_identified:
  assumes "g \<in> set (detectConflicts es)" "distinct (map entityKey es)"
    "entity1 \<in> set es" "entity2 \<in> set es" "\<not> isExcludedType entity1"
    "map ref_id (entities g) = [Some (entityKey entity1), Some (entityKey entity2)]"
  shows "g \<in> set (pairConflict entity1 entity2)"
proof -
  consider (faq) "g \<in> set (faqConflicts es)" | (pair) "g \<in> set (typeConflicts es)"
    using assms(1) by (auto simp: detectConflicts_def)
  then show ?thesis
  proof cases
    case faq
    then obtain q faqs where qf: "(q, faqs) \<in> set (groupBy faqQuestion (filter isFaq es))"
      and g: "g \<in> set (faqConflict (q, faqs))"
      using faqConflicts_origin by blast
    have "map (\<lambda>e. Some (entityKey e)) faqs = [Some (entityKey entity1), Some (entityKey entity2)]"
      using assms(6) faqConflict_shape(2) [OF g] by (simp add: comp_def toRef_def)
    then obtain f1 f2 where f: "faqs = [f1, f2]" "entityKey f1 = entityKey entity1"
      by (auto simp: map_eq_Cons_conv)
    have "faqs = filter (\<lambda>x. faqQuestion x = q) (filter isFaq es)"
      using groupBy_member [OF qf] by blast
    then have "set faqs \<subseteq> {x \<in> set es. isFaq x}"
      by auto
    then have f1: "f1 \<in> set es" "isFaq f1"
      using f(1) by auto
    have "f1 = entity1"
      by (rule same_key_same_record [OF assms(2) f1(1) assms(3) f(2)])
    then show ?thesis
      using f1(2) assms(5) excluded_not_faq by blast
  next
    case pair
    then obtain a b where ab: "a \<in> set es" "b \<in> set es" "g \<in> set (pairConflict a b)"
      using typeConflicts_origin by blast
    have "entityKey a = entityKey entity1" "entityKey b = entityKey entity2"
      using assms(6) pairConflict_shape(3) [OF ab(3)] by (simp_all add: toRef_def)
    then have "a = entity1" "b = entity2"
      using same_key_same_record [OF assms(2)] ab(1,2) assms(3,4) by blast+
    then show ?thesis using ab(3) by simp
  qed
qed

text \<open>
  C3, as the code has it. For two records of one non-excluded category whose selected
  contents are equal after \<open>normalizeString\<close>, whatever the similarity of their names:
  the contradiction engine answers no; in the groups that \<open>detectConflicts\<close> returns,
  every detail of the content family belongs to two records whose normalized contents
  differ; in a list whose records have distinct identity keys, a returned group whose
  entities carry the identifiers of the two records holds only \<open>phone_mismatch\<close> and
  \<open>url_mismatch\<close> details and the two names differ as written, so that two records
  with the same name get no group. The pair does get a group with a \<open>phone_mismatch\<close>
  (a \<open>url_mismatch\<close>) detail and no content detail when the names differ and both
  phone fields are non-empty with the same digits (both websites non-empty and equal).
\<close>

theorem agreement_no_content_conflict:
  assumes "es = xs @ entity1 # ys @ entity2 # zs"
    and "\<not> isExcludedType entity1" "\<not> isExcludedType entity2"
    and "bucketOf entity1 = bucketOf entity2"
    and "normalizeString (selectContent entity1) = normalizeString (selectContent entity2)"
  shows "\<not> detectSemanticContradictions (selectContent entity1) (selectContent entity2)
       \<and> (\<forall>g \<in> set (detectConflicts es). \<forall>d \<in> set (conflictDetails g).
            conflictType d \<in> set contentFamily \<longrightarrow>
            (\<exists>a b. a \<in> set es \<and> b \<in> set es \<and> entities g = [toRef a, toRef b] \<and>
                   normalizeString (selectContent a) \<noteq> normalizeString (selectContent b)))
       \<and> (distinct (map entityKey es) \<longrightarrow>
            (\<forall>g \<in> set (detectConflicts es).
               map ref_id (entities g) = [Some (entityKey entity1), Some (entityKey entity2)] \<longrightarrow>
               name entity1 \<noteq> name entity2 \<and>
               (\<forall>d \<in> set (conflictDetails g).
                  conflictType d \<notin> set contentFamily \<and>
                  (conflictType d = ''phone_mismatch'' \<or> conflictType d = ''url_mismatch''))))
       \<and> (name entity1 \<noteq> name entity2 \<and>
            truthy (mainPhone entity1) \<and> truthy (mainPhone entity2) \<and>
            normalizePhone (stringOr (mainPhone entity1)) =
              normalizePhone (stringOr (mainPhone entity2)) \<longrightarrow>
            (\<exists>g \<in> set (detectConflicts es).
               entities g = [toRef entity1, toRef entity2] \<and>
               (\<exists>d \<in> set (conflictDetails g). conflictType d = ''phone_mismatch'') \<and>
               \<not> (\<exists>d \<in> set (conflictDetails g). conflictType d \<in> set contentFamily)))
       \<and> (name entity1 \<noteq> name entity2 \<and>
            truthy (websiteUrl entity1) \<and> truthy (websiteUrl entity2) \<and>
            websiteUrl entity1 = websiteUrl entity2 \<longrightarrow>
            (\<exists>g \<in> set (detectConflicts es).
               entities g = [toRef entity1, toRef entity2] \<and>
               (\<exists>d \<in> set (conflictDetails g). conflictType d = ''url_mismatch'') \<and>
               \<not> (\<exists>d \<in> set (conflictDetails g). conflictType d \<in> set contentFamily)))"
proof -
  have none: "contentDetails entity1 entity2 = []"
    by (rule agreement_no_contentDetails [OF assms(5)])
  have details: "pairDetails entity1 entity2 = phoneDetails entity1 entity2 @ urlDetails entity1 entity2"
    by (simp add: pairDetails_def none)
  have contact: "conflictType d \<notin> set contentFamily \<and>
      (conflictType d = ''phone_mismatch'' \<or> conflictType d = ''url_mismatch'')"
    if "d \<in> set (pairDetails entity1 entity2)" for d
    using that phoneDetails_cases [of entity1 entity2] urlDetails_cases [of entity1 entity2]
    by (auto simp: details contentFamily_def)
  have in_es: "entity1 \<in> set es" "entity2 \<in> set es"
    using assms(1) by simp_all
  have first: "\<not> detectSemanticContradictions (selectContent entity1) (selectContent entity2)"
    by (rule equal_texts_no_contradiction [OF assms(5)])
  have second: "\<forall>g \<in> set (detectConflicts es). \<forall>d \<in> set (conflictDetails g).
      conflictType d \<in> set contentFamily \<longrightarrow>
      (\<exists>a b. a \<in> set es \<and> b \<in> set es \<and> entities g = [toRef a, toRef b] \<and>
             normalizeString (selectContent a) \<noteq> normalizeString (selectContent b))"
    using content_detail_origin by blast
  have third: "name entity1 \<noteq> name entity2 \<and>
      (\<forall>d \<in> set (conflictDetails g).
         conflictType d \<notin> set contentFamily \<and>
         (conflictType d = ''phone_mismatch'' \<or> conflictType d = ''url_mismatch''))"
    if keys: "distinct (map entityKey es)" and g: "g \<in> set (detectConflicts es)"
      and ids: "map ref_id (entities g) = [Some (entityKey entity1), Some (entityKey entity2)]"
    for g
  proof -
    have mem: "g \<in> set (pairConflict entity1 entity2)"
      by (rule pair_group_identified [OF g keys in_es assms(2) ids])
    have "name entity1 \<noteq> name entity2"
    proof
      assume "name entity1 = name entity2"
      then have "pairDetails entity1 entity2 = []"
        using same_name_no_contact_details by (simp add: details)
      then show False
        using pairConflict_shape(2) [OF mem] by simp
    qed
    then show ?thesis
      using contact pairConflict_shape(1) [OF mem] by simp
  qed
  have group: "\<exists>g \<in> set (detectConflicts es).
      entities g = [toRef entity1, toRef entity2] \<and>
      (\<exists>d \<in> set (conflictDetails g). conflictType d = ty) \<and>
      \<not> (\<exists>d \<in> set (conflictDetails g). conflictType d \<in> set contentFamily)"
    if d: "d \<in> set (pairDetails entity1 entity2)" "conflictType d = ty" for d ty
  proof -
    obtain g' where g': "pairConflict entity1 entity2 = [g']"
      using d(1) by (cases "pairDetails entity1 entity2") (simp_all add: pairConflict_def Let_def)
    then have mem: "g' \<in> set (pairConflict entity1 entity2)" by simp
    have "g' \<in> set (detectConflicts es)"
      using typeConflicts_pair [OF assms(1-4)] mem by (auto simp: detectConflicts_def)
    moreover have "entities g' = [toRef entity1, toRef entity2]"
      by (rule pairConflict_shape(3) [OF mem])
    moreover have "\<exists>d \<in> set (conflictDetails g'). conflictType d = ty"
      using d pairConflict_shape(1) [OF mem] by auto
    moreover have "\<not> (\<exists>d \<in> set (conflictDetails g'). conflictType d \<in> set contentFamily)"
      using contact pairConflict_shape(1) [OF mem] by auto
    ultimately show ?thesis by blast
  qed
  have fourth: "\<exists>g \<in> set (detectConflicts es).
      entities g = [toRef entity1, toRef entity2] \<and>
      (\<exists>d \<in> set (conflictDetails g). conflictType d = ''phone_mismatch'') \<and>
      \<not> (\<exists>d \<in> set (conflictDetails g). conflictType d \<in> set contentFamily)"
    if shared: "name entity1 \<noteq> name entity2 \<and>
        truthy (mainPhone entity1) \<and> truthy (mainPhone entity2) \<and>
        normalizePhone (stringOr (mainPhone entity1)) =
          normalizePhone (stringOr (mainPhone entity2))"
  proof -
    obtain d where "phoneDetails entity1 entity2 = [d]" "conflictType d = ''phone_mismatch''"
      using shared by (simp add: phoneDetails_def Let_def)
    then show ?thesis
      using group [of d "''phone_mismatch''"] by (simp add: details)
  qed
  have fifth: "\<exists>g \<in> set (detectConflicts es).
      entities g = [toRef entity1, toRef entity2] \<and>
      (\<exists>d \<in> set (conflictDetails g). conflictType d = ''url_mismatch'') \<and>
      \<not> (\<exists>d \<in> set (conflictDetails g). conflictType d \<in> set contentFamily)"
    if shared: "name entity1 \<noteq> name entity2 \<and>
        truthy (websiteUrl entity1) \<and> truthy (websiteUrl entity2) \<and>
        websiteUrl entity1 = websiteUrl entity2"
  proof -
    obtain d where "urlDetails entity1 entity2 = [d]" "conflictType d = ''url_mismatch''"
      using shared by (simp add: urlDetails_def)
    then show ?thesis
      using group [of d "''url_mismatch''"] by (simp add: details)
  qed
  have third': "distinct (map entityKey es) \<longrightarrow>
      (\<forall>g \<in> set (detectConflicts es).
         map ref_id (entities g) = [Some (entityKey entity1), Some (entityKey entity2)] \<longrightarrow>
         name entity1 \<noteq> name entity2 \<and>
         (\<forall>d \<in> set (conflictDetails g).
            conflictType d \<notin> set contentFamily \<and>
            (conflictType d = ''phone_mismatch'' \<or> conflictType d = ''url_mismatch'')))"
    by (intro impI ballI) (rule third)
  have fourth': "name entity1 \<noteq> name entity2 \<and>
      truthy (mainPhone entity1) \<and> truthy (mainPhone entity2) \<and>
      normalizePhone (stringOr (mainPhone entity1)) =
        normalizePhone (stringOr (mainPhone entity2)) \<longrightarrow>
      (\<exists>g \<in> set (detectConflicts es).
         entities g = [toRef entity1, toRef entity2] \<and>
         (\<exists>d \<in> set (conflictDetails g). conflictType d = ''phone_mismatch'') \<and>
         \<not> (\<exists>d \<in> set (conflictDetails g). conflictType d \<in> set contentFamily))"
    by (rule impI) (rule fourth)
  have fifth': "name entity1 \<noteq> name entity2 \<and>
      truthy (websiteUrl entity1) \<and> truthy (websiteUrl entity2) \<and>
      websiteUrl entity1 = websiteUrl entity2 \<longrightarrow>
      (\<exists>g \<in> set (detectConflicts es).
         entities g = [toRef entity1, toRef entity2] \<and>
         (\<exists>d \<in> set (conflictDetails g). conflictType d = ''url_mismatch'') \<and>
         \<not> (\<exists>d \<in> set (conflictDetails g). conflictType d \<in> set contentFamily))"
    by (rule impI) (rule fifth)
  show ?thesis
    by (rule conjI [OF first conjI [OF second conjI [OF third' conjI [OF fourth' fifth']]]])
qed

lemma agreement_example_hyps:
  "normalizeString (selectContent cafeA) = normalizeString (selectContent cafeB)"
  "normalizeString (selectContent twinA) = normalizeString (selectContent twinB)"
  "name twinA = name twinB"
  "\<not> isExcludedType cafeA" "\<not> isExcludedType cafeB" "bucketOf cafeA = bucketOf cafeB"
  "\<not> isExcludedType twinA" "\<not> isExcludedType twinB" "bucketOf twinA = bucketOf twinB"
  "distinct (map entityKey [cafeA, cafeB])" "distinct (map entityKey [twinA, twinB])"
  "name cafeA \<noteq> name cafeB" "truthy (mainPhone cafeA)" "truthy (mainPhone cafeB)"
  "normalizePhone (stringOr (mainPhone cafeA)) = normalizePhone (stringOr (mainPhone cafeB))"
  by code_simp+

theorem agreement_no_content_conflict_witness:
  "normalizeString (selectContent cafeA) = normalizeString (selectContent cafeB)
   \<and> nameSimilarityOf cafeA cafeB = 1
   \<and> \<not> detectSemanticContradictions (selectContent cafeA) (selectContent cafeB)
   \<and> (\<exists>g \<in> set (detectConflicts [cafeA, cafeB]).
         entities g = [toRef cafeA, toRef cafeB] \<and>
         (\<exists>d \<in> set (conflictDetails g). conflictType d = ''phone_mismatch'') \<and>
         \<not> (\<exists>d \<in> set (conflictDetails g). conflictType d \<in> set contentFamily))
   \<and> map (\<lambda>g. map conflictType (conflictDetails g)) (detectConflicts [cafeA, cafeB])
       = [[''phone_mismatch'']]
   \<and> name twinA = name twinB
   \<and> normalizeString (selectContent twinA) = normalizeString (selectContent twinB)
   \<and> \<not> (\<exists>g \<in> set (detectConflicts [twinA, twinB]).
           map ref_id (entities g) = [Some (entityKey twinA), Some (entityKey twinB)])
   \<and> detectConflicts [twinA, twinB] = []"
proof -
  have s: "nameSimilarityOf cafeA cafeB = 1"
    by code_simp
  have r: "map (\<lambda>g. map conflictType (conflictDetails g)) (detectConflicts [cafeA, cafeB])
      = [[''phone_mismatch'']]"
    "detectConflicts [twinA, twinB] = []"
    by code_simp+
  have cafe: "\<exists>g \<in> set (detectConflicts [cafeA, cafeB]).
      entities g = [toRef cafeA, toRef cafeB] \<and>
      (\<exists>d \<in> set (conflictDetails g). conflictType d = ''phone_mismatch'') \<and>
      \<not> (\<exists>d \<in> set (conflictDetails g). conflictType d \<in> set contentFamily)"
    and no: "\<not> detectSemanticContradictions (selectContent cafeA) (selectContent cafeB)"
    using agreement_no_content_conflict [of "[cafeA, cafeB]" "[]" cafeA "[]" cafeB "[]"]
      agreement_example_hyps
    by simp_all
  have twin: "\<not> (\<exists>g \<in> set (detectConflicts [twinA, twinB]).
      map ref_id (entities g) = [Some (entityKey twinA), Some (entityKey twinB)])"
    using agreement_no_content_conflict [of "[twinA, twinB]" "[]" twinA "[]" twinB "[]"]
      agreement_example_hyps
    by auto
  show ?thesis
    using s r cafe no twin agreement_example_hyps(1-3) by simp
qed

text \<open>
  C3 as stated fails: two records of one category whose names have similarity 1 and whose
  contents agree after normalization, sharing a phone number under names written
  differently, get a detail.
\<close>

theorem agreement_with_shared_phone:
  "bucketOf cafeA = bucketOf cafeB
   \<and> nameSimilarityOf cafeA cafeB = 1
   \<and> normalizeString (selectContent cafeA) = normalizeString (selectContent cafeB)
   \<and> length (detectConflicts [cafeA, cafeB]) = 1
   \<and> map ref_id (entities (hd (detectConflicts [cafeA, cafeB]))) = [Some ''r-1'', Some ''r-2'']
   \<and> map conflictType (conflictDetails (hd (detectConflicts [cafeA, cafeB])))
       = [''phone_mismatch'']"
  by code_simp

text \<open>
  C9. The identifier of a pairwise group is built from the two names, which need not be
  unique: two records named alike that each conflict with a third give two groups with
  one identifier.
\<close>

theorem duplicate_group_ids:
  "map groupId (detectConflicts [twinA, twinB, shopC])
     = [''conflict-Store-Shop'', ''conflict-Store-Shop'']
   \<and> map ref_id (entities (detectConflicts [twinA, twinB, shopC] ! 0))
       = [Some ''r-7'', Some ''r-9'']
   \<and> map ref_id (entities (detectConflicts [twinA, twinB, shopC] ! 1))
       = [Some ''r-8'', Some ''r-9'']
   \<and> \<not> distinct (map groupId (detectConflicts [twinA, twinB, shopC]))"
  by code_simp

text \<open>The identifiers of the FAQ groups of one run are pairwise distinct.\<close>

lemma faqConflict_ids:
  "g \<in> set (faqConflict (k, vs)) \<Longrightarrow> groupId g = faqGroupId k"
  by (rule faqConflict_shape(1))

lemma faqConflict_short: "length (faqConflict kv) \<le> 1"
  by (cases kv) (simp add: faqConflict_def Let_def)

lemma faq_groups_distinct:
  "distinct (map fst G) \<Longrightarrow> distinct (map groupId (concat (map faqConflict G)))"
proof (induction G)
  case Nil
  then show ?case by simp
next
  case (Cons kv G)
  obtain k vs where kv: "kv = (k, vs)" by (cases kv)
  have tail: "distinct (map groupId (concat (map faqConflict G)))"
    using Cons by simp
  have other: "groupId g \<noteq> faqGroupId k" if g: "g \<in> set (concat (map faqConflict G))" for g
  proof -
    obtain k' vs' where m: "(k', vs') \<in> set G" "g \<in> set (faqConflict (k', vs'))"
      using g by auto
    have "k' \<noteq> k"
      using Cons.prems kv m(1) by (auto simp: image_iff)
    then show ?thesis
      using faqConflict_ids [OF m(2)] by simp
  qed
  have head: "distinct (map groupId (faqConflict kv))"
    using faqConflict_short [of kv] by (cases "faqConflict kv") auto
  have "set (map groupId (faqConflict kv)) \<inter> set (map groupId (concat (map faqConflict G))) = {}"
    using other faqConflict_ids kv by fastforce
  then show ?case
    using head tail by simp
qed

lemma faqConflicts_ids_distinct: "distinct (map groupId (faqConflicts es))"
  using faq_groups_distinct [OF groupBy_distinct]
  by (simp add: faqConflicts_def Let_def)

section \<open>The contradiction example\<close>

lemma sundays_normalized:
  "normalizeString openOnSundays = ''the store is open on sundays''"
  "normalizeString notOpenOnSundays = ''the store is not open on sundays''"
  by code_simp+

text \<open>
  What each layer finds: the only fact is the boolean \<open>no\<close> inside \<open>not\<close>, in one text
  only; neither text has a step marker, a date or a quantity.
\<close>

lemma sundays_layers:
  "extractFacts ''the store is open on sundays'' = []"
  "map fact_value (extractFacts ''the store is not open on sundays'') = [''no'']"
  "matchAll stepRegex ''the store is open on sundays'' = []"
  "matchAll dateRegex ''the store is open on sundays'' = []"
  "matchAll quantityRegex ''the store is open on sundays'' = []"
  by code_simp+

text \<open>The lexical-pattern table finds no opposite terms either.\<close>

lemma sundays_lexical_layer:
  "detectContradictions openOnSundays notOpenOnSundays = False"
  "detectContradictions notOpenOnSundays openOnSundays = False"
  by code_simp+

lemma sundays_no_contradiction:
  "detectSemanticContradictions openOnSundays notOpenOnSundays = False"
  "detectSemanticContradictions notOpenOnSundays openOnSundays = False"
  by code_simp+

lemma medium_content_detail:
  assumes "nameSimilarityOf entity1 entity2 > 3 / 10"
    "selectContent entity1 \<noteq> []" "selectContent entity2 \<noteq> []"
    "normalizeString (selectContent entity1) \<noteq> normalizeString (selectContent entity2)"
    "\<not> detectSemanticContradictions (selectContent entity1) (selectContent entity2)"
  shows "\<exists>d. contentDetails entity1 entity2 = [d] \<and> severity d = Medium \<and>
             conflictType d \<in> set [''body_content_conflict'', ''content_conflict'',
                                    ''description_conflict'', ''inconsistent_data'']"
  using assms by (auto simp: contentDetails_def differingField_def Let_def)

text \<open>
  C2, as the code has it. Two records of one non-excluded category, one before the other
  in the input, with similar names (similarity above 0.3) and the two sentences as their
  selected contents, in either order: no layer of the contradiction engine reports a
  contradiction; the pair gets one content detail, of medium severity and of a conflict
  type that says the contents differ; and the group of the pair in the result is of medium
  severity, as is every detail in it.
\<close>

theorem sundays_content_difference:
  assumes "es = xs @ entity1 # ys @ entity2 # zs"
    and "\<not> isExcludedType entity1" "\<not> isExcludedType entity2"
    and "bucketOf entity1 = bucketOf entity2"
    and "nameSimilarityOf entity1 entity2 > 3 / 10"
    and "(selectContent entity1 = openOnSundays \<and> selectContent entity2 = notOpenOnSundays) \<or>
         (selectContent entity1 = notOpenOnSundays \<and> selectContent entity2 = openOnSundays)"
  shows "\<not> detectSemanticContradictions (selectContent entity1) (selectContent entity2)
       \<and> (\<exists>d. contentDetails entity1 entity2 = [d] \<and> severity d = Medium \<and>
               conflictType d \<in> set [''body_content_conflict'', ''content_conflict'',
                                      ''description_conflict'', ''inconsistent_data''])
       \<and> (\<exists>g \<in> set (detectConflicts es).
             entities g = [toRef entity1, toRef entity2] \<and>
             groupSeverity g = Medium \<and>
             (\<forall>d \<in> set (conflictDetails g). severity d = Medium) \<and>
             (\<exists>d \<in> set (conflictDetails g).
                conflictType d \<in> set [''body_content_conflict'', ''content_conflict'',
                                       ''description_conflict'', ''inconsistent_data'']))"
proof -
  have ne: "selectContent entity1 \<noteq> []" "selectContent entity2 \<noteq> []"
    using assms(6) by (auto simp: openOnSundays_def notOpenOnSundays_def)
  have diff: "normalizeString (selectContent entity1) \<noteq> normalizeString (selectContent entity2)"
    using assms(6) by (auto simp: sundays_normalized)
  have nc: "\<not> detectSemanticContradictions (selectContent entity1) (selectContent entity2)"
    using assms(6) by (auto simp: sundays_no_contradiction)
  obtain d where d: "contentDetails entity1 entity2 = [d]" "severity d = Medium"
    "conflictType d \<in> set [''body_content_conflict'', ''content_conflict'',
                            ''description_conflict'', ''inconsistent_data'']"
    using medium_content_detail [OF assms(5) ne diff nc] by blast
  have all: "\<forall>d \<in> set (pairDetails entity1 entity2). severity d = Medium"
    using phoneDetails_cases [of entity1 entity2] urlDetails_cases [of entity1 entity2] d(1,2)
    by (auto simp: pairDetails_def)
  have mem: "d \<in> set (pairDetails entity1 entity2)"
    using d(1) by (simp add: pairDetails_def)
  have "pairDetails entity1 entity2 \<noteq> []"
    using mem by auto
  then obtain g where g: "g \<in> set (pairConflict entity1 entity2)"
    by (simp add: pairConflict_def Let_def)
  have ds: "conflictDetails g = pairDetails entity1 entity2"
    by (rule pairConflict_shape(1) [OF g])
  have "groupSeverity g = maxSeverity (map severity (pairDetails entity1 entity2))"
    using pairConflict_shape(5) [OF g] by (simp only: rollup_maxSeverity)
  moreover have "set (map severity (pairDetails entity1 entity2)) = {Medium}"
    using all mem by (cases "pairDetails entity1 entity2") auto
  ultimately have sev: "groupSeverity g = Medium"
    by (simp add: maxSeverity_cases)
  have "g \<in> set (typeConflicts es)"
    using typeConflicts_pair [OF assms(1-4)] g by blast
  then have top: "g \<in> set (detectConflicts es)"
    by (simp add: detectConflicts_def)
  have "entities g = [toRef entity1, toRef entity2] \<and> groupSeverity g = Medium \<and>
      (\<forall>d \<in> set (conflictDetails g). severity d = Medium) \<and>
      (\<exists>d \<in> set (conflictDetails g).
         conflictType d \<in> set [''body_content_conflict'', ''content_conflict'',
                                ''description_conflict'', ''inconsistent_data''])"
    using pairConflict_shape(3) [OF g] sev all mem d(3) unfolding ds by blast
  then show ?thesis
    using nc d top by blast
qed

lemma sundays_example_hyps:
  "nameSimilarityOf storeA storeB = 6 / 7"
  "selectContent storeA = openOnSundays" "selectContent storeB = notOpenOnSundays"
  "\<not> isExcludedType storeA" "\<not> isExcludedType storeB" "bucketOf storeA = bucketOf storeB"
  by code_simp+

theorem sundays_content_difference_witness:
  "nameSimilarityOf storeA storeB = 6 / 7
   \<and> selectContent storeA = openOnSundays \<and> selectContent storeB = notOpenOnSundays
   \<and> \<not> detectSemanticContradictions (selectContent storeA) (selectContent storeB)
   \<and> (\<exists>d. contentDetails storeA storeB = [d] \<and> severity d = Medium \<and>
           conflictType d \<in> set [''body_content_conflict'', ''content_conflict'',
                                  ''description_conflict'', ''inconsistent_data''])
   \<and> (\<exists>g \<in> set (detectConflicts [storeA, storeB]).
         entities g = [toRef storeA, toRef storeB] \<and> groupSeverity g = Medium)"
proof -
  have "(3::rat) / 10 < 6 / 7" by simp
  then have sim: "nameSimilarityOf storeA storeB > 3 / 10"
    by (simp only: sundays_example_hyps(1))
  have l: "[storeA, storeB] = [] @ storeA # [] @ storeB # []" by simp
  show ?thesis
    using sundays_content_difference [OF l sundays_example_hyps(4-6) sim]
      sundays_example_hyps(1-3)
    by blast
qed

text \<open>
  C2 as stated fails: on the two records of the example neither the contradiction engine
  nor the lexical-pattern table reports a contradiction, and the group and its one detail
  are of medium severity, of type \<open>description_conflict\<close>.
\<close>

theorem sundays_not_high:
  "bucketOf storeA = bucketOf storeB
   \<and> nameSimilarityOf storeA storeB = 6 / 7
   \<and> detectSemanticContradictions openOnSundays notOpenOnSundays = False
   \<and> detectContradictions openOnSundays notOpenOnSundays = False
   \<and> length (detectConflicts [storeA, storeB]) = 1
   \<and> groupSeverity (hd (detectConflicts [storeA, storeB])) = Medium
   \<and> map conflictType (conflictDetails (hd (detectConflicts [storeA, storeB])))
       = [''description_conflict'']
   \<and> map severity (conflictDetails (hd (detectConflicts [storeA, storeB]))) = [Medium]"
  by code_simp

end
